theory Spec2Isabelle
  imports Main
begin

section \<open>JavaScript values\<close>

text \<open>
  The values that the observable containers hold and that attribute mappings carry.
  \<open>VNum n\<close> stands for the number \<open>n\<close> when \<open>n\<close> is a safe integer (below
  \<open>2^53\<close> in absolute value), the range in which every integer is a number of the
  language and prints as its decimal digits; the code only compares and prints
  numbers. \<open>VNaN\<close> is the number that is not equal to itself. A function is a reference
  \<open>VFun i src\<close>: \<open>i\<close> is its identity and \<open>src\<close> the source text that
  \<open>toString()\<close> returns for it. \<open>VObj i\<close> is any other object, with identity \<open>i\<close>.
  \<open>VBuiltin name\<close> is the value of the member \<open>name\<close> that every plain object
  inherits from \<open>Object.prototype\<close>.
\<close>

datatype jsval =
    VUndefined
  | VNull
  | VBool bool
  | VNum int
  | VNaN
  | VStr string
  | VFun nat string
  | VObj nat
  | VBuiltin string

datatype error = TypeError | HierarchyRequestError | InvalidCharacterError

text \<open>\<open>a === b\<close>: equality of primitives, identity of references, and \<open>NaN !== NaN\<close>.\<close>

definition strict_eq :: "jsval \<Rightarrow> jsval \<Rightarrow> bool" where
  "strict_eq a b = (a = b \<and> a \<noteq> VNaN)"

text \<open>\<open>null == v\<close>, true for \<open>null\<close> and \<open>undefined\<close> only.\<close>

fun nullish :: "jsval \<Rightarrow> bool" where
  "nullish VUndefined = True"
| "nullish VNull = True"
| "nullish _ = False"

text \<open>Truthiness, as \<open>v || w\<close> tests it.\<close>

fun truthy :: "jsval \<Rightarrow> bool" where
  "truthy VUndefined = False"
| "truthy VNull = False"
| "truthy (VBool b) = b"
| "truthy (VNum n) = (n \<noteq> 0)"
| "truthy VNaN = False"
| "truthy (VStr s) = (s \<noteq> [])"
| "truthy _ = True"

section \<open>Plain objects\<close>

text \<open>
  An object is a reference \<open>oid\<close> together with its own properties, in the order of
  their creation. Two objects are the same object (\<open>a == b\<close>) when their references
  are equal.
\<close>

type_synonym props = "(string \<times> jsval) list"

record jsobject =
  oid :: nat
  props :: props

text \<open>
  The names of the members that the language defines on \<open>Object.prototype\<close>. A plain
  object (an object literal, the result of a spread) inherits them; members that a host
  or a library adds to the prototype are not modelled.
\<close>

definition object_prototype_names :: "string list" where
  "object_prototype_names =
     [''constructor'', ''hasOwnProperty'', ''isPrototypeOf'', ''propertyIsEnumerable'',
      ''toLocaleString'', ''toString'', ''valueOf'', ''__proto__'',
      ''__defineGetter__'', ''__defineSetter__'', ''__lookupGetter__'', ''__lookupSetter__'']"

text \<open>
  \<open>o[k]\<close> on a plain object: the own property, else the inherited member, else
  \<open>undefined\<close>.
\<close>

definition get_prop :: "props \<Rightarrow> string \<Rightarrow> jsval" where
  "get_prop ps k =
     (case map_of ps k of
        Some v \<Rightarrow> v
      | None \<Rightarrow> if k \<in> set object_prototype_names then VBuiltin k else VUndefined)"

text \<open>
  A key is an array index when it is the decimal numeral, without leading zeros, of a
  number below \<open>2^32 - 1\<close>.
\<close>

definition is_digit :: "char \<Rightarrow> bool" where
  "is_digit c = (c \<in> set ''0123456789'')"

text \<open>The value of a digit: its place in the row of the ten digits.\<close>

definition digit_value :: "char \<Rightarrow> nat" where
  "digit_value c = length (takeWhile (\<lambda>d. d \<noteq> c) ''0123456789'')"

definition index_value :: "string \<Rightarrow> nat" where
  "index_value k = foldl (\<lambda>n c. 10 * n + digit_value c) 0 k"

definition is_array_index :: "string \<Rightarrow> bool" where
  "is_array_index k =
     (k \<noteq> [] \<and> list_all is_digit k
      \<and> (if hd k = CHR ''0'' then length k = 1 else True)
      \<and> index_value k < 4294967295)"

text \<open>
  The own properties in the order in which the language enumerates them: those whose
  key is an array index in ascending numeric order, then the others in the order of
  their creation. \<open>Object.keys(o)\<close> lists the keys in this order.
\<close>

definition entries :: "props \<Rightarrow> props" where
  "entries ps =
     sort_key (\<lambda>(k, v). index_value k) (filter (\<lambda>(k, v). is_array_index k) ps)
     @ filter (\<lambda>(k, v). \<not> is_array_index k) ps"

definition keys :: "props \<Rightarrow> string list" where
  "keys ps = map fst (entries ps)"

text \<open>
  Definition of the own property \<open>k\<close> with value \<open>v\<close>: an existing key keeps its
  place, a new key goes last.
\<close>

fun set_prop :: "'k \<Rightarrow> 'v \<Rightarrow> ('k \<times> 'v) list \<Rightarrow> ('k \<times> 'v) list" where
  "set_prop k v [] = [(k, v)]"
| "set_prop k v ((k', v') # ps) =
     (if k' = k then (k, v) # ps else (k', v') # set_prop k v ps)"

text \<open>
  The object literal \<open>{ ...a, ...b }\<close>: the own properties of \<open>a\<close>, then those of
  \<open>b\<close>, each object in its order of enumeration, defined one after the other on an
  empty object.
\<close>

definition spread :: "props \<Rightarrow> props \<Rightarrow> props" where
  "spread a b = foldl (\<lambda>acc (k, v). set_prop k v acc) [] (entries a @ entries b)"

section \<open>Observable\<close>

text \<open>
  A callback is represented by an identifier. Invoking it appends a record of the call,
  with its arguments, to the trace that the container's state carries; the callbacks
  themselves do not call back into the container.
\<close>

type_synonym callback = nat

record observable =
  item :: jsval
  listeners :: "callback list"
  calls :: "(callback \<times> jsval \<times> jsval) list"




text \<open>\<^verbatim>\<open>onChange: callback => { listeners.push(callback); callback(item, item); }\<close>\<close>

definition Observable_onChange :: "observable \<Rightarrow> callback \<Rightarrow> observable" where
  "Observable_onChange ob callback =
     (let ob1 = ob\<lparr>listeners := listeners ob @ [callback]\<rparr>
      in ob1\<lparr>calls := calls ob1 @ [(callback, item ob1, item ob1)]\<rparr>)"

section \<open>ObservableList\<close>

text \<open>
  \<open>list.indexOf(item)\<close>: the first index whose element is \<open>===\<close> to the item,
  \<open>-1\<close> when there is none.
\<close>

fun indexOf :: "jsval list \<Rightarrow> jsval \<Rightarrow> int" where
  "indexOf [] v = -1"
| "indexOf (x # xs) v =
     (if strict_eq x v then 0
      else let i = indexOf xs v in if i < 0 then -1 else i + 1)"

text \<open>\<open>list.splice(i, 1)\<close> for \<open>0 \<le> i\<close>: drops the element at index \<open>i\<close>, if there is one.\<close>

definition splice1 :: "'a list \<Rightarrow> nat \<Rightarrow> 'a list" where
  "splice1 xs i = take i xs @ drop (Suc i) xs"

datatype list_call =
    AddCall callback jsval
  | RemoveCall callback jsval
  | ReplaceCall callback jsval jsval

record observable_list =
  list :: "jsval list"
  addListeners :: "callback list"
  removeListeners :: "callback list"
  replaceListeners :: "callback list"
  list_calls :: "list_call list"

definition ObservableList :: "jsval list \<Rightarrow> observable_list" where
  "ObservableList xs =
     \<lparr>list = xs, addListeners = [], removeListeners = [], replaceListeners = [],
      list_calls = []\<rparr>"

definition ObservableList_onAdd :: "observable_list \<Rightarrow> callback \<Rightarrow> observable_list" where
  "ObservableList_onAdd ol listener = ol\<lparr>addListeners := addListeners ol @ [listener]\<rparr>"

definition ObservableList_onRemove :: "observable_list \<Rightarrow> callback \<Rightarrow> observable_list" where
  "ObservableList_onRemove ol listener = ol\<lparr>removeListeners := removeListeners ol @ [listener]\<rparr>"

definition ObservableList_onReplace :: "observable_list \<Rightarrow> callback \<Rightarrow> observable_list" where
  "ObservableList_onReplace ol listener =
     ol\<lparr>replaceListeners := replaceListeners ol @ [listener]\<rparr>"

text \<open>
  \<^verbatim>\<open>add: item => { list.push(item); addListeners.forEach(listener => listener(item)); }\<close>
\<close>

definition ObservableList_add :: "observable_list \<Rightarrow> jsval \<Rightarrow> observable_list" where
  "ObservableList_add ol v =
     (let ol1 = ol\<lparr>list := list ol @ [v]\<rparr>
      in ol1\<lparr>list_calls := list_calls ol1 @ map (\<lambda>listener. AddCall listener v) (addListeners ol1)\<rparr>)"

text \<open>
  \<^verbatim>\<open>remove: item => { const i = list.indexOf(item);
                      if (i >= 0) { list.splice(i, 1); }
                      removeListeners.forEach(listener => listener(item)); }\<close>
\<close>

definition ObservableList_remove :: "observable_list \<Rightarrow> jsval \<Rightarrow> observable_list" where
  "ObservableList_remove ol v =
     (let i = indexOf (list ol) v;
          ol1 = (if i \<ge> 0 then ol\<lparr>list := splice1 (list ol) (nat i)\<rparr> else ol)
      in ol1\<lparr>list_calls :=
               list_calls ol1 @ map (\<lambda>listener. RemoveCall listener v) (removeListeners ol1)\<rparr>)"

text \<open>
  \<^verbatim>\<open>replace: (item, newItem) => { const i = list.indexOf(item);
                                 if (i >= 0) { list[i] = newItem; }
                                 replaceListeners.forEach(listener => listener(newItem, item)); }\<close>
\<close>

definition ObservableList_replace ::
  "observable_list \<Rightarrow> jsval \<Rightarrow> jsval \<Rightarrow> observable_list" where
  "ObservableList_replace ol v newItem =
     (let i = indexOf (list ol) v;
          ol1 = (if i \<ge> 0 then ol\<lparr>list := (list ol)[nat i := newItem]\<rparr> else ol)
      in ol1\<lparr>list_calls :=
               list_calls ol1
               @ map (\<lambda>listener. ReplaceCall listener newItem v) (replaceListeners ol1)\<rparr>)"

definition ObservableList_count :: "observable_list \<Rightarrow> nat" where
  "ObservableList_count ol = length (list ol)"

definition ObservableList_countIf :: "observable_list \<Rightarrow> (jsval \<Rightarrow> bool) \<Rightarrow> nat" where
  "ObservableList_countIf ol pred = foldl (\<lambda>sum v. if pred v then sum + 1 else sum) 0 (list ol)"

definition ObservableList_indexOf :: "observable_list \<Rightarrow> jsval \<Rightarrow> int" where
  "ObservableList_indexOf ol v = indexOf (list ol) v"

text \<open>\<open>list[index]\<close>, which is \<open>undefined\<close> outside the sequence.\<close>

definition ObservableList_get :: "observable_list \<Rightarrow> nat \<Rightarrow> jsval" where
  "ObservableList_get ol index = (if index < length (list ol) then list ol ! index else VUndefined)"

definition ObservableList_getAll :: "observable_list \<Rightarrow> jsval list" where
  "ObservableList_getAll ol = list ol"

section \<open>ObservableObject\<close>

datatype object_call =
    ListenerCall callback jsobject jsobject
  | SubscriberCall string callback jsval jsval

text \<open>
  A value stored in, or read from, the plain object \<open>subscribers\<close>: the array of the
  callbacks subscribed for a key, or a value that is not an array.
\<close>

datatype sub_value =
    Subscribers "callback list"
  | NotArray jsval

text \<open>
  The state of one ObservableObject: the closure variables \<open>object\<close>, \<open>listeners\<close> and
  \<open>subscribers\<close> (the own properties of that object), the next free object reference
  \<open>heap_next\<close> (every object literal that the container evaluates takes one), the
  trace of callback invocations, and in \<open>thrown\<close> the exception with which a call has
  ended, if one has. An exception leaves the script that uses the container: the calls
  after it are not made, so every operation leaves a state with an exception as it is.
\<close>

record observable_object =
  object :: jsobject
  obj_listeners :: "callback list"
  subscribers :: "(string \<times> sub_value) list"
  heap_next :: nat
  trace :: "object_call list"
  thrown :: "error option"

definition ObservableObject :: "jsobject \<Rightarrow> observable_object" where
  "ObservableObject obj =
     \<lparr>object = obj, obj_listeners = [], subscribers = [],
      heap_next = Suc (oid obj), trace = [], thrown = None\<rparr>"

definition new_object :: "observable_object \<Rightarrow> props \<Rightarrow> jsobject \<times> observable_object" where
  "new_object st ps = (\<lparr>oid = heap_next st, props = ps\<rparr>, st\<lparr>heap_next := Suc (heap_next st)\<rparr>)"

text \<open>
  \<open>subscribers[key] || []\<close>: the own property if it is truthy, else the member
  inherited from \<open>Object.prototype\<close> (a function or an object, which is truthy), else
  a new empty array.
\<close>

definition lookup_subscribers :: "(string \<times> sub_value) list \<Rightarrow> string \<Rightarrow> sub_value" where
  "lookup_subscribers subs key =
     (case map_of subs key of
        Some (Subscribers ss) \<Rightarrow> Subscribers ss
      | Some (NotArray v) \<Rightarrow> if truthy v then NotArray v else Subscribers []
      | None \<Rightarrow>
          if key \<in> set object_prototype_names then NotArray (VBuiltin key) else Subscribers [])"

text \<open>
  The key loop of \<open>notify\<close>, from the keys still to visit:
  \<^verbatim>\<open>Object.keys(newObject).forEach(key => {
      const newValue = newObject[key]; const oldValue = oldObject[key];
      if (oldValue === newValue) return;
      (subscribers[key] || []).forEach(subscriber => subscriber(newValue, oldValue)); });\<close>
  The result is the exception thrown, if any, and the calls made. A value that is not
  an array has no method \<open>forEach\<close>: calling it throws a TypeError, which ends the loop.
\<close>

fun subscriber_calls ::
  "(string \<times> sub_value) list \<Rightarrow> props \<Rightarrow> props \<Rightarrow> string list
   \<Rightarrow> error option \<times> object_call list" where
  "subscriber_calls subs newProps oldProps [] = (None, [])"
| "subscriber_calls subs newProps oldProps (key # ks) =
     (let newValue = get_prop newProps key;
          oldValue = get_prop oldProps key
      in if strict_eq oldValue newValue then subscriber_calls subs newProps oldProps ks
         else case lookup_subscribers subs key of
                NotArray v \<Rightarrow> (Some TypeError, [])
              | Subscribers ss \<Rightarrow>
                  (case subscriber_calls subs newProps oldProps ks of
                     (e, cs) \<Rightarrow>
                       (e, map (\<lambda>subscriber. SubscriberCall key subscriber newValue oldValue) ss
                           @ cs)))"

text \<open>
  \<^verbatim>\<open>const notify = newObject => {
      if (object == newObject) return;
      const oldObject = object; object = newObject;
      Object.keys(newObject).forEach(...);
      listeners.forEach(listener => listener(newObject, oldObject)); };\<close>
  An exception in the key loop leaves \<open>object\<close> assigned and the calls made so far in
  the trace, and the listeners are not reached.
\<close>

definition notify :: "observable_object \<Rightarrow> jsobject \<Rightarrow> observable_object" where
  "notify st newObject =
     (if oid (object st) = oid newObject then st
      else
        let oldObject = object st;
            st1 = st\<lparr>object := newObject\<rparr>
        in case subscriber_calls (subscribers st1) (props newObject) (props oldObject)
                  (keys (props newObject)) of
             (e, cs) \<Rightarrow>
               let st2 = st1\<lparr>trace := trace st1 @ cs\<rparr>
               in case e of
                    Some err \<Rightarrow> st2\<lparr>thrown := Some err\<rparr>
                  | None \<Rightarrow>
                      st2\<lparr>trace := trace st2
                              @ map (\<lambda>listener. ListenerCall listener newObject oldObject)
                                  (obj_listeners st2)\<rparr>)"

definition ObservableObject_get :: "observable_object \<Rightarrow> jsobject" where
  "ObservableObject_get st = object st"

text \<open>\<^verbatim>\<open>set: newObject => notify({ ...object, ...newObject })\<close>\<close>

definition ObservableObject_set :: "observable_object \<Rightarrow> props \<Rightarrow> observable_object" where
  "ObservableObject_set st newProps =
     (if thrown st \<noteq> None then st
      else let (merged, st1) = new_object st (spread (props (object st)) newProps)
           in notify st1 merged)"

text \<open>\<^verbatim>\<open>push: (key, value) => notify({ ...object, ...{ [key]: value } })\<close>\<close>

definition ObservableObject_push ::
  "observable_object \<Rightarrow> string \<Rightarrow> jsval \<Rightarrow> observable_object" where
  "ObservableObject_push st key v =
     (if thrown st \<noteq> None then st
      else let (merged, st1) = new_object st (spread (props (object st)) [(key, v)])
           in notify st1 merged)"

text \<open>\<^verbatim>\<open>remove: key => notify({ ...object, ...{ [key]: undefined } })\<close>\<close>

definition ObservableObject_remove :: "observable_object \<Rightarrow> string \<Rightarrow> observable_object" where
  "ObservableObject_remove st key =
     (if thrown st \<noteq> None then st
      else let (merged, st1) = new_object st (spread (props (object st)) [(key, VUndefined)])
           in notify st1 merged)"

text \<open>\<^verbatim>\<open>onChange: callback => { listeners.push(callback); callback(object, object); }\<close>\<close>

definition ObservableObject_onChange :: "observable_object \<Rightarrow> callback \<Rightarrow> observable_object" where
  "ObservableObject_onChange st callback =
     (if thrown st \<noteq> None then st
      else let st1 = st\<lparr>obj_listeners := obj_listeners st @ [callback]\<rparr>
           in st1\<lparr>trace := trace st1 @ [ListenerCall callback (object st1) (object st1)]\<rparr>)"

text \<open>
  The assignment \<open>subscribers[key] = v\<close>. It defines an own property, except for the
  key \<open>__proto__\<close> when \<open>subscribers\<close> has no own property of that name: this key is
  an accessor of \<open>Object.prototype\<close>, and the assignment of the value read from it
  changes nothing.
\<close>

definition assign_subscribers ::
  "(string \<times> sub_value) list \<Rightarrow> string \<Rightarrow> sub_value \<Rightarrow> (string \<times> sub_value) list" where
  "assign_subscribers subs key v =
     (if key = ''__proto__'' \<and> map_of subs key = None then subs else set_prop key v subs)"

text \<open>
  \<^verbatim>\<open>subscribe: (key, callback) => {
      subscribers[key] = subscribers[key] || [];
      subscribers[key].push(callback);
      callback(object[key], object[key]); }\<close>
  The value that the second statement reads is the one that the first has assigned. A
  value that is not an array has no method \<open>push\<close>: calling it throws a TypeError, and
  the callback is not called.
\<close>

definition ObservableObject_subscribe ::
  "observable_object \<Rightarrow> string \<Rightarrow> callback \<Rightarrow> observable_object" where
  "ObservableObject_subscribe st key callback =
     (if thrown st \<noteq> None then st
      else
        let v = lookup_subscribers (subscribers st) key;
            st1 = st\<lparr>subscribers := assign_subscribers (subscribers st) key v\<rparr>
        in case v of
             NotArray u \<Rightarrow> st1\<lparr>thrown := Some TypeError\<rparr>
           | Subscribers ss \<Rightarrow>
               let st2 = st1\<lparr>subscribers :=
                              set_prop key (Subscribers (ss @ [callback])) (subscribers st1)\<rparr>
               in st2\<lparr>trace := trace st2
                         @ [SubscriberCall key callback (get_prop (props (object st2)) key)
                                                        (get_prop (props (object st2)) key)]\<rparr>)"

text \<open>The key under which a recorded call was made as a per-key subscriber, if it was.\<close>

fun subscriber_key :: "object_call \<Rightarrow> string option" where
  "subscriber_key (SubscriberCall key subscriber newValue oldValue) = Some key"
| "subscriber_key (ListenerCall listener newObject oldObject) = None"

text \<open>The callbacks of an array of subscribers; a value that is not an array has none.\<close>

fun callbacks :: "sub_value \<Rightarrow> callback list" where
  "callbacks (Subscribers ss) = ss"
| "callbacks (NotArray v) = []"

fun is_array :: "sub_value \<Rightarrow> bool" where
  "is_array (Subscribers ss) = True"
| "is_array (NotArray v) = False"

text \<open>
  Shallow equality of a new snapshot with the old one: every key of the new snapshot
  maps to a value that is \<open>===\<close> to the old snapshot's value for it.
\<close>

definition same_values :: "props \<Rightarrow> props \<Rightarrow> bool" where
  "same_values newProps oldProps =
     list_all (\<lambda>key. strict_eq (get_prop oldProps key) (get_prop newProps key)) (keys newProps)"

text \<open>The keys of the new snapshot whose value is not \<open>===\<close> to the old one's.\<close>

definition changed_keys :: "props \<Rightarrow> props \<Rightarrow> string list" where
  "changed_keys newProps oldProps =
     filter (\<lambda>key. \<not> strict_eq (get_prop oldProps key) (get_prop newProps key)) (keys newProps)"

section \<open>Virtual DOM nodes\<close>

text \<open>
  The values that occur as nodes of a virtual tree: \<open>undefined\<close>, \<open>null\<close>, strings,
  numbers (with NaN apart), arrays, and the objects that \<open>vNode\<close> builds, with exactly
  the properties \<open>tagName\<close>, \<open>attributes\<close> and \<open>children\<close>.
\<close>

datatype vnode =
    NUndefined
  | NNull
  | NStr string
  | NNum int
  | NNaN
  | NArray "vnode list"
  | VNode string props "vnode list"

fun vnullish :: "vnode \<Rightarrow> bool" where
  "vnullish NUndefined = True"
| "vnullish NNull = True"
| "vnullish _ = False"

text \<open>\<open>[].concat(...nodes)\<close> appends the elements of an argument that is an array, and
  any other argument itself.\<close>

fun concat_arg :: "vnode \<Rightarrow> vnode list" where
  "concat_arg (NArray xs) = xs"
| "concat_arg n = [n]"

text \<open>
  \<^verbatim>\<open>const vNode = (tagName, attributes = {}, ...nodes) => ({
      tagName,
      attributes: null == attributes ? {} : attributes,
      children: null == nodes ? [] : [].concat(...nodes), });\<close>
  The attribute argument is \<open>None\<close> for \<open>null\<close> or \<open>undefined\<close>. The rest parameter
  \<open>nodes\<close> is always an array, so the test \<open>null == nodes\<close> is never true.
\<close>

definition vNode :: "string \<Rightarrow> props option \<Rightarrow> vnode list \<Rightarrow> vnode" where
  "vNode tagName attributes nodes =
     VNode tagName (case attributes of None \<Rightarrow> [] | Some a \<Rightarrow> a) (concat (map concat_arg nodes))"

datatype jstype = TUndefined | TObject | TString | TNumber

fun typeof :: "vnode \<Rightarrow> jstype" where
  "typeof NUndefined = TUndefined"
| "typeof NNull = TObject"
| "typeof (NStr s) = TString"
| "typeof (NNum n) = TNumber"
| "typeof NNaN = TNumber"
| "typeof (NArray xs) = TObject"
| "typeof (VNode t a cs) = TObject"

text \<open>
  Property reads on a node value. Reading any property of \<open>undefined\<close> or \<open>null\<close>
  throws a TypeError; a property that the value does not have reads as \<open>undefined\<close>
  (\<open>None\<close> below). No node value has a property named \<open>type\<close>.
\<close>

fun prop_type :: "vnode \<Rightarrow> error + jsval" where
  "prop_type NUndefined = Inl TypeError"
| "prop_type NNull = Inl TypeError"
| "prop_type _ = Inr VUndefined"

fun prop_attributes :: "vnode \<Rightarrow> error + props option" where
  "prop_attributes NUndefined = Inl TypeError"
| "prop_attributes NNull = Inl TypeError"
| "prop_attributes (VNode t a cs) = Inr (Some a)"
| "prop_attributes _ = Inr None"

fun prop_tagName :: "vnode \<Rightarrow> error + string option" where
  "prop_tagName NUndefined = Inl TypeError"
| "prop_tagName NNull = Inl TypeError"
| "prop_tagName (VNode t a cs) = Inr (Some t)"
| "prop_tagName _ = Inr None"

fun prop_children :: "vnode \<Rightarrow> error + vnode list option" where
  "prop_children NUndefined = Inl TypeError"
| "prop_children NNull = Inl TypeError"
| "prop_children (VNode t a cs) = Inr (Some cs)"
| "prop_children _ = Inr None"

text \<open>\<open>node1 === node2\<close> for two strings or two numbers; \<open>changed\<close> evaluates it
  only for these.\<close>

fun prim_strict_eq :: "vnode \<Rightarrow> vnode \<Rightarrow> bool" where
  "prim_strict_eq (NStr a) (NStr b) = (a = b)"
| "prim_strict_eq (NNum a) (NNum b) = (a = b)"
| "prim_strict_eq _ _ = False"

text \<open>
  Decimal digits of a natural number, and \<open>toString()\<close> of a value; for a number,
  of a safe integer, which prints as its digits.
\<close>

fun digits :: "nat \<Rightarrow> string" where
  "digits n =
     (if n < 10 then [''0123456789'' ! n]
      else digits (n div 10) @ [''0123456789'' ! (n mod 10)])"

declare digits.simps [simp del]

fun to_string :: "jsval \<Rightarrow> string" where
  "to_string VUndefined = ''undefined''"
| "to_string VNull = ''null''"
| "to_string (VBool b) = (if b then ''true'' else ''false'')"
| "to_string (VNum n) = (if n < 0 then CHR ''-'' # digits (nat (- n)) else digits (nat n))"
| "to_string VNaN = ''NaN''"
| "to_string (VStr s) = s"
| "to_string (VFun i src) = src"
| "to_string (VObj i) = ''[object Object]''"
| "to_string (VBuiltin name) =
     (if name = ''__proto__'' then ''[object Object]''
      else if name = ''constructor'' then ''function Object() { [native code] }''
      else ''function '' @ name @ ''() { [native code] }'')"

text \<open>\<^verbatim>\<open>(null == v ? '' : v).toString()\<close>\<close>

definition attr_string :: "jsval \<Rightarrow> string" where
  "attr_string v = (if nullish v then [] else to_string v)"

text \<open>
  \<^verbatim>\<open>const nodeChanged =
      typeof node1 !== typeof node2 ||
      ((typeof node1 === 'string' || typeof node1 === 'number') && node1 !== node2) ||
      node1.type !== node2.type;\<close>
\<close>

definition nodeChanged :: "vnode \<Rightarrow> vnode \<Rightarrow> error + bool" where
  "nodeChanged node1 node2 =
     (if typeof node1 \<noteq> typeof node2 then Inr True
      else if (typeof node1 = TString \<or> typeof node1 = TNumber) \<and> \<not> prim_strict_eq node1 node2
      then Inr True
      else case prop_type node1 of
             Inl e \<Rightarrow> Inl e
           | Inr type1 \<Rightarrow>
               (case prop_type node2 of
                  Inl e \<Rightarrow> Inl e
                | Inr type2 \<Rightarrow> Inr (\<not> strict_eq type1 type2)))"

text \<open>
  \<^verbatim>\<open>const attributesChanged =
      !!node1.attributes && !!node2.attributes &&
      (Object.keys(node1.attributes).length !== Object.keys(node2.attributes).length ||
        Object.keys(node1.attributes).some(a =>
            node1.attributes[a] !== node2.attributes[a] &&
            (null == node1.attributes[a] ? '' : node1.attributes[a]).toString() !==
            (null == node2.attributes[a] ? '' : node2.attributes[a]).toString()));\<close>
\<close>

definition attributesChanged :: "vnode \<Rightarrow> vnode \<Rightarrow> error + bool" where
  "attributesChanged node1 node2 =
     (case prop_attributes node1 of
        Inl e \<Rightarrow> Inl e
      | Inr None \<Rightarrow> Inr False
      | Inr (Some attributes1) \<Rightarrow>
          (case prop_attributes node2 of
             Inl e \<Rightarrow> Inl e
           | Inr None \<Rightarrow> Inr False
           | Inr (Some attributes2) \<Rightarrow>
               Inr (length (keys attributes1) \<noteq> length (keys attributes2)
                    \<or> list_ex (\<lambda>a.
                          \<not> strict_eq (get_prop attributes1 a) (get_prop attributes2 a)
                          \<and> attr_string (get_prop attributes1 a)
                              \<noteq> attr_string (get_prop attributes2 a))
                        (keys attributes1))))"

text \<open>\<^verbatim>\<open>return nodeChanged || attributesChanged;\<close>, both computed first.\<close>

definition changed :: "vnode \<Rightarrow> vnode \<Rightarrow> error + bool" where
  "changed node1 node2 =
     (case nodeChanged node1 node2 of
        Inl e \<Rightarrow> Inl e
      | Inr nc \<Rightarrow>
          (case attributesChanged node1 node2 of
             Inl e \<Rightarrow> Inl e
           | Inr ac \<Rightarrow> Inr (nc \<or> ac)))"

section \<open>The live display tree\<close>

text \<open>
  The host's tree: a text node, or an element with its tag, its attributes (name and
  string value), its event listeners (event name and handler) and its child nodes.
  Which element and attribute names the host accepts is a parameter; it rejects the
  others with an InvalidCharacterError. The host's case normalisation of names is not
  modelled.
\<close>

datatype dom =
    TextNode string
  | Element string "(string \<times> string) list" "(string \<times> jsval) list" "dom list"

record host =
  element_name_ok :: "string \<Rightarrow> bool"
  attribute_name_ok :: "string \<Rightarrow> bool"

fun childNodes :: "dom \<Rightarrow> dom list" where
  "childNodes (TextNode s) = []"
| "childNodes (Element t a l cs) = cs"

text \<open>\<open>$parent.childNodes[index]\<close>, \<open>None\<close> for \<open>undefined\<close>.\<close>

definition child_at :: "dom \<Rightarrow> nat \<Rightarrow> dom option" where
  "child_at p i = (if i < length (childNodes p) then Some (childNodes p ! i) else None)"

text \<open>The parent after a mutation inside its child at an index.\<close>

fun put_child :: "dom \<Rightarrow> nat \<Rightarrow> dom \<Rightarrow> dom" where
  "put_child (TextNode s) i c = TextNode s"
| "put_child (Element t a l cs) i c = Element t a l (cs[i := c])"

fun createElement :: "host \<Rightarrow> string \<Rightarrow> error + dom" where
  "createElement h tagName =
     (if element_name_ok h tagName then Inr (Element tagName [] [] []) else Inl InvalidCharacterError)"

fun setAttribute :: "host \<Rightarrow> dom \<Rightarrow> string \<Rightarrow> string \<Rightarrow> error + dom" where
  "setAttribute h (Element t a l cs) name v =
     (if attribute_name_ok h name then Inr (Element t (set_prop name v a) l cs)
      else Inl InvalidCharacterError)"
| "setAttribute h (TextNode s) name v = Inl TypeError"

fun addEventListener :: "dom \<Rightarrow> string \<Rightarrow> jsval \<Rightarrow> dom" where
  "addEventListener (Element t a l cs) name f =
     Element t a (if (name, f) \<in> set l then l else l @ [(name, f)]) cs"
| "addEventListener (TextNode s) name f = TextNode s"

fun appendChild :: "dom \<Rightarrow> dom \<Rightarrow> error + dom" where
  "appendChild (Element t a l cs) c = Inr (Element t a l (cs @ [c]))"
| "appendChild (TextNode s) c = Inl HierarchyRequestError"

text \<open>
  \<open>$parent.removeChild($parent.childNodes[index])\<close> and
  \<open>$parent.replaceChild(c, $parent.childNodes[index])\<close>: a TypeError when there is no
  child at the index (the argument is \<open>undefined\<close>).
\<close>

definition removeChild_at :: "dom \<Rightarrow> nat \<Rightarrow> error + dom" where
  "removeChild_at p i =
     (case p of
        TextNode s \<Rightarrow> Inl TypeError
      | Element t a l cs \<Rightarrow>
          if i < length cs then Inr (Element t a l (splice1 cs i)) else Inl TypeError)"

definition replaceChild_at :: "dom \<Rightarrow> dom \<Rightarrow> nat \<Rightarrow> error + dom" where
  "replaceChild_at p c i =
     (case p of
        TextNode s \<Rightarrow> Inl TypeError
      | Element t a l cs \<Rightarrow>
          if i < length cs then Inr (Element t a l (cs[i := c])) else Inl TypeError)"

section \<open>Renderer\<close>

fun is_function :: "jsval \<Rightarrow> bool" where
  "is_function (VFun i src) = True"
| "is_function (VBuiltin name) = (name \<noteq> ''__proto__'')"
| "is_function _ = False"

text \<open>
  The loop of \<open>createDomElement\<close> over the keys whose value is neither \<open>null\<close> nor
  \<open>undefined\<close>:
  \<^verbatim>\<open>if (typeof attributes[key] === 'function') { $element.addEventListener(key, attributes[key]); }
  else { $element.setAttribute(key, attributes[key]); }\<close>
\<close>

fun set_attributes :: "host \<Rightarrow> props \<Rightarrow> string list \<Rightarrow> dom \<Rightarrow> error + dom" where
  "set_attributes h attributes [] el = Inr el"
| "set_attributes h attributes (key # ks) el =
     (if is_function (get_prop attributes key)
      then set_attributes h attributes ks (addEventListener el key (get_prop attributes key))
      else case setAttribute h el key (to_string (get_prop attributes key)) of
             Inl e \<Rightarrow> Inl e
           | Inr el' \<Rightarrow> set_attributes h attributes ks el')"

text \<open>
  \<open>createDomElement(tagName, attributes)\<close>, as \<open>render\<close> calls it: the third
  parameter takes its default \<open>''\<close>, which leaves the new element without children.
\<close>

definition createDomElement :: "host \<Rightarrow> string \<Rightarrow> props \<Rightarrow> error + dom" where
  "createDomElement h tagName attributes =
     (case createElement h tagName of
        Inl e \<Rightarrow> Inl e
      | Inr el \<Rightarrow>
          set_attributes h attributes
            (filter (\<lambda>key. \<not> nullish (get_prop attributes key)) (keys attributes)) el)"

text \<open>
  \<^verbatim>\<open>const render = node => {
      if (null == node) { return document.createTextNode(''); }
      if (typeof node === 'string' || typeof node === 'number') {
        return document.createTextNode(node); }
      const $element = createDomElement(node.tagName, node.attributes);
      node.children.forEach(c => $element.appendChild(render(c)));
      return $element; };\<close>
  An array has none of the three properties: the element is created with the tag
  \<open>undefined\<close> and no attributes, and \<open>node.children.forEach\<close> throws a TypeError.
\<close>

fun render :: "host \<Rightarrow> vnode \<Rightarrow> error + dom"
  and render_children :: "host \<Rightarrow> vnode list \<Rightarrow> dom \<Rightarrow> error + dom" where
  "render h NUndefined = Inr (TextNode [])"
| "render h NNull = Inr (TextNode [])"
| "render h (NStr s) = Inr (TextNode s)"
| "render h (NNum n) = Inr (TextNode (to_string (VNum n)))"
| "render h NNaN = Inr (TextNode (to_string VNaN))"
| "render h (NArray xs) =
     (case createDomElement h ''undefined'' [] of
        Inl e \<Rightarrow> Inl e
      | Inr el \<Rightarrow> Inl TypeError)"
| "render h (VNode t a cs) =
     (case createDomElement h t a of
        Inl e \<Rightarrow> Inl e
      | Inr el \<Rightarrow> render_children h cs el)"
| "render_children h [] el = Inr el"
| "render_children h (c # cs) el =
     (case render h c of
        Inl e \<Rightarrow> Inl e
      | Inr d \<Rightarrow>
          (case appendChild el d of
             Inl e \<Rightarrow> Inl e
           | Inr el' \<Rightarrow> render_children h cs el'))"

section \<open>Differ\<close>

text \<open>
  A mutation of the live tree, as \<open>diff\<close> performs it: the method called, the place
  of the node it was called on (the child indices that lead to it from the
  \<open>$parent\<close> of the outermost call), and its arguments, a child being named by its
  index.
\<close>

datatype dom_op =
    AppendChild "nat list" dom
  | RemoveChild "nat list" nat
  | ReplaceChild "nat list" nat dom

fun under :: "nat \<Rightarrow> dom_op \<Rightarrow> dom_op" where
  "under i (AppendChild path c) = AppendChild (i # path) c"
| "under i (RemoveChild path j) = RemoveChild (i # path) j"
| "under i (ReplaceChild path j c) = ReplaceChild (i # path) j c"

text \<open>
  \<^verbatim>\<open>const diff = ($parent, newNode, oldNode, index = 0) => {
      if (null == oldNode) { $parent.appendChild(render(newNode)); return; }
      if (null == newNode) { $parent.removeChild($parent.childNodes[index]); return; }
      if (changed(oldNode, newNode)) {
        $parent.replaceChild(render(newNode), $parent.childNodes[index]); return; }
      if (newNode.tagName) {
        newNode.children.forEach((newNode, i) => {
          diff($parent.childNodes[index], newNode, oldNode.children[i], i); }); } };\<close>

  \<open>$parent\<close> is \<open>None\<close> when it is \<open>undefined\<close>, as \<open>$parent.childNodes[index]\<close> of
  an enclosing call may be. \<open>newNode.tagName\<close> is truthy for an element node with a
  non-empty tag only; strings, numbers and arrays have no such property. The result is the exception thrown, if any, the parent as
  the call leaves it (mutations made before an exception stay), and the mutations made.
  \<open>diff_children\<close> is the \<open>forEach\<close> loop from child index \<open>i\<close> on.
\<close>

type_synonym diff_result = "error option \<times> dom option \<times> dom_op list"

function diff :: "host \<Rightarrow> dom option \<Rightarrow> vnode \<Rightarrow> vnode \<Rightarrow> nat \<Rightarrow> diff_result"
  and diff_children ::
    "host \<Rightarrow> dom option \<Rightarrow> nat \<Rightarrow> vnode list \<Rightarrow> vnode \<Rightarrow> nat \<Rightarrow> diff_result" where
  "diff h parent newNode oldNode index =
     (if vnullish oldNode then
        (case parent of
           None \<Rightarrow> (Some TypeError, None, [])
         | Some p \<Rightarrow>
             (case render h newNode of
                Inl e \<Rightarrow> (Some e, Some p, [])
              | Inr d \<Rightarrow>
                  (case appendChild p d of
                     Inl e \<Rightarrow> (Some e, Some p, [])
                   | Inr p' \<Rightarrow> (None, Some p', [AppendChild [] d]))))
      else if vnullish newNode then
        (case parent of
           None \<Rightarrow> (Some TypeError, None, [])
         | Some p \<Rightarrow>
             (case removeChild_at p index of
                Inl e \<Rightarrow> (Some e, Some p, [])
              | Inr p' \<Rightarrow> (None, Some p', [RemoveChild [] index])))
      else
        (case changed oldNode newNode of
           Inl e \<Rightarrow> (Some e, parent, [])
         | Inr c \<Rightarrow>
             if c then
               (case parent of
                  None \<Rightarrow> (Some TypeError, None, [])
                | Some p \<Rightarrow>
                    (case render h newNode of
                       Inl e \<Rightarrow> (Some e, Some p, [])
                     | Inr d \<Rightarrow>
                         (case replaceChild_at p d index of
                            Inl e \<Rightarrow> (Some e, Some p, [])
                          | Inr p' \<Rightarrow> (None, Some p', [ReplaceChild [] index d]))))
             else
               (case newNode of
                  VNode t a cs \<Rightarrow>
                    if t \<noteq> [] then diff_children h parent index cs oldNode 0
                    else (None, parent, [])
                | _ \<Rightarrow> (None, parent, []))))"
| "diff_children h parent index [] oldNode i = (None, parent, [])"
| "diff_children h parent index (newNode # rest) oldNode i =
     (case parent of
        None \<Rightarrow> (Some TypeError, None, [])
      | Some p \<Rightarrow>
          (case prop_children oldNode of
             Inl e \<Rightarrow> (Some e, Some p, [])
           | Inr None \<Rightarrow> (Some TypeError, Some p, [])
           | Inr (Some oldChildren) \<Rightarrow>
               (case diff h (child_at p index) newNode
                       (if i < length oldChildren then oldChildren ! i else NUndefined) i of
                  (e, sub, ops) \<Rightarrow>
                    let p' = (case sub of None \<Rightarrow> p | Some c \<Rightarrow> put_child p index c)
                    in case e of
                         Some err \<Rightarrow> (Some err, Some p', map (under index) ops)
                       | None \<Rightarrow>
                           (case diff_children h (Some p') index rest oldNode (Suc i) of
                              (e', parent', ops') \<Rightarrow> (e', parent', map (under index) ops @ ops')))))"
  by pat_completeness auto
termination
  by (relation "measure (\<lambda>x. case x of
          Inl (h, parent, newNode, oldNode, index) \<Rightarrow> 2 * size newNode + 1
        | Inr (h, parent, index, nodes, oldNode, i) \<Rightarrow> 2 * size_list size nodes)") auto

declare diff.simps [simp del]

section \<open>Notions of the specification\<close>

text \<open>
  The specification's reading of the children of a node representation: the arguments
  flattened by one level, a nested sequence being replaced by its entries.
\<close>

fun spec_flatten_one_level :: "vnode list \<Rightarrow> vnode list" where
  "spec_flatten_one_level [] = []"
| "spec_flatten_one_level (NArray xs # rest) = xs @ spec_flatten_one_level rest"
| "spec_flatten_one_level (n # rest) = n # spec_flatten_one_level rest"

text \<open>The number of entries that an argument contributes to the children.\<close>

fun arg_entries :: "vnode \<Rightarrow> nat" where
  "arg_entries (NArray xs) = length xs"
| "arg_entries n = 1"

text \<open>
  A tree with no entry that is \<open>null\<close> or \<open>undefined\<close> and no number NaN, at any
  depth.
\<close>

fun plain :: "vnode \<Rightarrow> bool" where
  "plain NUndefined = False"
| "plain NNull = False"
| "plain NNaN = False"
| "plain (NStr s) = True"
| "plain (NNum n) = True"
| "plain (NArray xs) = list_all plain xs"
| "plain (VNode t a cs) = list_all plain cs"

text \<open>A host that accepts every name.\<close>

definition any_name :: host where
  "any_name = \<lparr>element_name_ok = (\<lambda>name. True), attribute_name_ok = (\<lambda>name. True)\<rparr>"

section \<open>Properties of Observable\<close>

lemma Observable_onChange_item [simp]: "item (Observable_onChange ob cb) = item ob"
  by (simp add: Observable_onChange_def Let_def)

lemma Observable_onChange_listeners [simp]:
  "listeners (Observable_onChange ob cb) = listeners ob @ [cb]"
  by (simp add: Observable_onChange_def Let_def)

lemma foldl_onChange_item [simp]: "item (foldl Observable_onChange ob cbs) = item ob"
  by (induction cbs arbitrary: ob) simp_all

lemma foldl_onChange_listeners [simp]:
  "listeners (foldl Observable_onChange ob cbs) = listeners ob @ cbs"
  by (induction cbs arbitrary: ob) simp_all



section \<open>Properties of ObservableList\<close>

lemma indexOf_lower: "- 1 \<le> indexOf xs v"
  by (induction xs) (simp_all add: Let_def)

lemma indexOf_upper: "indexOf xs v < int (length xs)"
  by (induction xs) (simp_all add: Let_def)

lemma indexOf_absent:
  "\<not> list_ex (\<lambda>x. strict_eq x v) xs \<Longrightarrow> indexOf xs v = - 1"
  by (induction xs) (simp_all add: Let_def)

lemma indexOf_present:
  "list_ex (\<lambda>x. strict_eq x v) xs \<Longrightarrow> 0 \<le> indexOf xs v"
  by (induction xs) (auto simp add: Let_def)

lemma indexOf_append_present:
  "list_ex (\<lambda>x. strict_eq x v) xs \<Longrightarrow> indexOf (xs @ ys) v = indexOf xs v"
  by (induction xs) (auto simp add: Let_def dest: indexOf_present)

lemma indexOf_append_absent:
  "\<not> list_ex (\<lambda>x. strict_eq x v) xs \<Longrightarrow> strict_eq v v
   \<Longrightarrow> indexOf (xs @ [v]) v = int (length xs)"
  by (induction xs) (simp_all add: Let_def)

lemma splice1_length: "i < length xs \<Longrightarrow> length (splice1 xs i) = length xs - 1"
  by (simp add: splice1_def)

lemma splice1_last: "splice1 (xs @ [v]) (length xs) = xs"
  by (simp add: splice1_def)

lemma splice1_indexOf:
  "list_ex (\<lambda>x. strict_eq x v) xs \<Longrightarrow> splice1 xs (nat (indexOf xs v)) = remove1 v xs"
proof (induction xs)
  case Nil
  then show ?case by simp
next
  case (Cons x xs)
  show ?case
  proof (cases "strict_eq x v")
    case True
    then show ?thesis by (auto simp add: splice1_def strict_eq_def)
  next
    case False
    with Cons.prems have ex: "list_ex (\<lambda>x. strict_eq x v) xs" by simp
    from False ex have "x \<noteq> v" by (auto simp add: strict_eq_def list_ex_iff)
    moreover from ex have "0 \<le> indexOf xs v" by (rule indexOf_present)
    moreover from this have "nat (indexOf xs v + 1) = Suc (nat (indexOf xs v))" by simp
    moreover note Cons.IH [OF ex] False
    ultimately show ?thesis by (simp add: splice1_def Let_def)
  qed
qed

text \<open>
  Claim C8, as stated, fails when the item already occurs in the backing sequence:
  \<open>remove\<close> takes out the first occurrence, not the element that \<open>add\<close> pushed. On
  \<open>[1, 2]\<close>, \<open>add(1)\<close> then \<open>remove(1)\<close> leaves \<open>[2, 1]\<close>. It also fails for
  the item NaN, which \<open>indexOf\<close> never finds: on the empty sequence, \<open>add(NaN)\<close>
  then \<open>remove(NaN)\<close> leaves one element.
\<close>

theorem ObservableList_add_remove_counterexample:
  "ObservableList_getAll
     (ObservableList_remove (ObservableList_add (ObservableList [VNum 1, VNum 2]) (VNum 1)) (VNum 1))
   = [VNum 2, VNum 1]
   \<and> ObservableList_getAll (ObservableList [VNum 1, VNum 2]) \<noteq> [VNum 2, VNum 1]
   \<and> ObservableList_count (ObservableList []) = 0
   \<and> ObservableList_count
       (ObservableList_remove (ObservableList_add (ObservableList []) VNaN) VNaN) = 1"
  by (simp add: ObservableList_getAll_def ObservableList_remove_def ObservableList_add_def
      ObservableList_count_def ObservableList_def splice1_def strict_eq_def Let_def)

text \<open>
  Claim C8, amended. After \<open>add(item)\<close> then \<open>remove(item)\<close> every onAdd listener and
  then every onRemove listener has been called once with the item. For an item that is
  \<open>===\<close> to itself (any item but NaN), \<open>count()\<close> is what it was before; the backing
  sequence is what it was before when the item did not occur in it, and otherwise it is
  the earlier sequence without its first occurrence of the item, followed by the item.
\<close>

theorem ObservableList_add_remove:
  fixes ol :: observable_list and v :: jsval
  defines "ol' \<equiv> ObservableList_remove (ObservableList_add ol v) v"
  shows "list_calls ol' = list_calls ol @ map (\<lambda>l. AddCall l v) (addListeners ol)
                                       @ map (\<lambda>l. RemoveCall l v) (removeListeners ol)
       \<and> (strict_eq v v \<longrightarrow> ObservableList_count ol' = ObservableList_count ol)
       \<and> (strict_eq v v \<and> \<not> list_ex (\<lambda>x. strict_eq x v) (list ol) \<longrightarrow>
            ObservableList_getAll ol' = ObservableList_getAll ol)
       \<and> (list_ex (\<lambda>x. strict_eq x v) (list ol) \<longrightarrow>
            ObservableList_getAll ol' = remove1 v (list ol) @ [v])"
proof -
  have calls: "list_calls ol' = list_calls ol @ map (\<lambda>l. AddCall l v) (addListeners ol)
                                       @ map (\<lambda>l. RemoveCall l v) (removeListeners ol)"
    by (simp add: ol'_def ObservableList_remove_def ObservableList_add_def Let_def)
  have absent: "ObservableList_getAll ol' = list ol"
    if "strict_eq v v" and "\<not> list_ex (\<lambda>x. strict_eq x v) (list ol)"
    using that indexOf_append_absent [of v "list ol"]
    by (simp add: ol'_def ObservableList_remove_def ObservableList_add_def
        ObservableList_getAll_def Let_def splice1_last)
  have present: "ObservableList_getAll ol' = remove1 v (list ol) @ [v]"
    if ex: "list_ex (\<lambda>x. strict_eq x v) (list ol)"
  proof -
    from ex have ex': "list_ex (\<lambda>x. strict_eq x v) (list ol @ [v])" by simp
    from ex have "v \<in> set (list ol)" by (auto simp add: list_ex_iff strict_eq_def)
    then have "remove1 v (list ol @ [v]) = remove1 v (list ol) @ [v]"
      by (simp add: remove1_append)
    with splice1_indexOf [OF ex'] indexOf_present [OF ex'] show ?thesis
      by (simp add: ol'_def ObservableList_remove_def ObservableList_add_def
          ObservableList_getAll_def Let_def)
  qed
  have count: "ObservableList_count ol' = ObservableList_count ol" if self: "strict_eq v v"
  proof (cases "list_ex (\<lambda>x. strict_eq x v) (list ol)")
    case True
    then have "v \<in> set (list ol)" by (auto simp add: list_ex_iff strict_eq_def)
    then have "length (remove1 v (list ol)) = length (list ol) - 1" "list ol \<noteq> []"
      by (auto simp add: length_remove1)
    with present [OF True] show ?thesis
      by (simp add: ObservableList_count_def ObservableList_getAll_def)
  next
    case False
    with absent [OF self] show ?thesis
      by (simp add: ObservableList_count_def ObservableList_getAll_def)
  qed
  from calls absent present count show ?thesis
    by (simp add: ObservableList_getAll_def)
qed

theorem ObservableList_add_remove_witness:
  "strict_eq (VNum 3) (VNum 3)
   \<and> \<not> list_ex (\<lambda>x. strict_eq x (VNum 3)) [VNum 1, VNum 2]
   \<and> ObservableList_getAll
       (ObservableList_remove (ObservableList_add (ObservableList [VNum 1, VNum 2]) (VNum 3)) (VNum 3))
     = [VNum 1, VNum 2]
   \<and> list_ex (\<lambda>x. strict_eq x (VNum 1)) [VNum 1, VNum 2]
   \<and> ObservableList_getAll
       (ObservableList_remove (ObservableList_add (ObservableList [VNum 1, VNum 2]) (VNum 1)) (VNum 1))
     = [VNum 2, VNum 1]"
  using ObservableList_add_remove [where v = "VNum 3" and ol = "ObservableList [VNum 1, VNum 2]"]
        ObservableList_add_remove [where v = "VNum 1" and ol = "ObservableList [VNum 1, VNum 2]"]
  by (simp add: strict_eq_def ObservableList_def ObservableList_getAll_def)

section \<open>Properties of ObservableObject\<close>

lemma set_entries: "set (entries ps) = set ps"
  by (auto simp add: entries_def)

lemma length_entries: "length (entries ps) = length ps"
proof -
  have "filter (\<lambda>(k, v). \<not> is_array_index k) ps
        = filter (\<lambda>x. \<not> (case x of (k, v) \<Rightarrow> is_array_index k)) ps"
    by (rule filter_cong) auto
  with sum_length_filter_compl [of "\<lambda>(k, v). is_array_index k" ps]
  show ?thesis by (simp add: entries_def)
qed

lemma set_keys: "set (keys ps) = fst ` set ps"
  by (simp add: keys_def set_entries)

lemma length_keys: "length (keys ps) = length ps"
  by (simp add: keys_def length_entries)

lemma distinct_keys: "distinct (map fst ps) \<Longrightarrow> distinct (keys ps)"
proof -
  assume "distinct (map fst ps)"
  then have "card (fst ` set ps) = length ps"
    using distinct_card [of "map fst ps"] by simp
  then have "card (set (keys ps)) = length (keys ps)"
    by (simp add: set_keys length_keys)
  then show ?thesis by (rule card_distinct)
qed

lemma fst_set_prop: "fst ` set (set_prop k v ps) = insert k (fst ` set ps)"
  by (induction ps) (force split: if_splits)+

lemma distinct_set_prop: "distinct (map fst ps) \<Longrightarrow> distinct (map fst (set_prop k v ps))"
proof (induction ps)
  case Nil
  then show ?case by simp
next
  case (Cons q ps)
  obtain k' v' where q: "q = (k', v')" by (cases q)
  from Cons.prems have "distinct (map fst ps)" by simp
  then have IH: "distinct (map fst (set_prop k v ps))" by (rule Cons.IH)
  show ?case
  proof (cases "k' = k")
    case True
    with Cons.prems q show ?thesis by simp
  next
    case False
    from Cons.prems q have "k' \<notin> fst ` set ps" by simp
    with False have "k' \<notin> fst ` set (set_prop k v ps)" by (simp add: fst_set_prop)
    with IH q False show ?thesis by simp
  qed
qed

lemma distinct_foldl_set_prop:
  "distinct (map fst acc)
   \<Longrightarrow> distinct (map fst (foldl (\<lambda>acc (k, v). set_prop k v acc) acc kvs))"
  by (induction kvs arbitrary: acc) (auto simp add: distinct_set_prop)

lemma distinct_keys_spread: "distinct (keys (spread a b))"
  unfolding spread_def by (rule distinct_keys, rule distinct_foldl_set_prop) simp

lemma subscriber_calls_arrays:
  "list_all (\<lambda>k. is_array (lookup_subscribers subs k))
     (filter (\<lambda>k. \<not> strict_eq (get_prop oldProps k) (get_prop newProps k)) ks)
   \<Longrightarrow> subscriber_calls subs newProps oldProps ks
       = (None,
          concat (map (\<lambda>k. map (\<lambda>s. SubscriberCall k s (get_prop newProps k) (get_prop oldProps k))
                              (callbacks (lookup_subscribers subs k)))
                   (filter (\<lambda>k. \<not> strict_eq (get_prop oldProps k) (get_prop newProps k)) ks)))"
proof (induction ks)
  case Nil
  then show ?case by simp
next
  case (Cons k ks)
  show ?case
  proof (cases "strict_eq (get_prop oldProps k) (get_prop newProps k)")
    case True
    with Cons show ?thesis by (simp add: Let_def)
  next
    case False
    with Cons.prems obtain ss where ss: "lookup_subscribers subs k = Subscribers ss"
      by (cases "lookup_subscribers subs k") simp_all
    from False Cons.prems have "list_all (\<lambda>k. is_array (lookup_subscribers subs k))
        (filter (\<lambda>k. \<not> strict_eq (get_prop oldProps k) (get_prop newProps k)) ks)" by simp
    from Cons.IH [OF this] False ss show ?thesis by (simp add: Let_def)
  qed
qed

lemma subscriber_calls_throws:
  "\<not> list_all (\<lambda>k. is_array (lookup_subscribers subs k))
       (filter (\<lambda>k. \<not> strict_eq (get_prop oldProps k) (get_prop newProps k)) ks)
   \<Longrightarrow> fst (subscriber_calls subs newProps oldProps ks) = Some TypeError"
proof (induction ks)
  case Nil
  then show ?case by simp
next
  case (Cons k ks)
  show ?case
  proof (cases "strict_eq (get_prop oldProps k) (get_prop newProps k)")
    case True
    with Cons show ?thesis by (simp add: Let_def)
  next
    case False
    show ?thesis
    proof (cases "lookup_subscribers subs k")
      case (NotArray v)
      with False show ?thesis by (simp add: Let_def)
    next
      case (Subscribers ss)
      with False Cons.prems have "\<not> list_all (\<lambda>k. is_array (lookup_subscribers subs k))
        (filter (\<lambda>k. \<not> strict_eq (get_prop oldProps k) (get_prop newProps k)) ks)" by simp
      from Cons.IH [OF this] False Subscribers show ?thesis
        by (cases "subscriber_calls subs newProps oldProps ks") (simp add: Let_def)
    qed
  qed
qed

lemma filter_key_calls:
  "filter (\<lambda>c. subscriber_key c = Some k) (map (\<lambda>s. SubscriberCall k' s nv ov) ss)
   = (if k' = k then map (\<lambda>s. SubscriberCall k' s nv ov) ss else [])"
  by (induction ss) simp_all

lemma calls_by_key:
  "distinct ks \<Longrightarrow>
   filter (\<lambda>c. subscriber_key c = Some k)
     (concat (map (\<lambda>k. map (\<lambda>s. SubscriberCall k s (nv k) (ov k)) (cbs k)) (filter P ks)))
   = (if k \<in> set ks \<and> P k then map (\<lambda>s. SubscriberCall k s (nv k) (ov k)) (cbs k) else [])"
  by (induction ks) (auto simp add: filter_key_calls)

lemma calls_are_subscriber_calls:
  "c \<in> set (concat (map (\<lambda>k. map (\<lambda>s. SubscriberCall k s (nv k) (ov k)) (cbs k)) ks))
   \<Longrightarrow> subscriber_key c \<noteq> None"
  by auto

lemma same_values_changed_keys: "same_values newProps oldProps \<Longrightarrow> changed_keys newProps oldProps = []"
  by (simp add: same_values_def changed_keys_def list_all_iff filter_empty_conv)


text \<open>
  Claim C2, as stated, fails: the guard of \<open>notify\<close> compares references, and the
  snapshot that \<open>set\<close> builds is always a new object. With snapshot \<open>{a: 1}\<close> and one
  whole-object listener, \<open>set({a: 1})\<close> merges to the same values and still calls the
  listener.
\<close>

theorem ObservableObject_set_same_values_counterexample:
  "same_values (spread [(''a'', VNum 1)] [(''a'', VNum 1)]) [(''a'', VNum 1)]
   \<and> trace (ObservableObject_set
        (ObservableObject_onChange (ObservableObject \<lparr>oid = 0, props = [(''a'', VNum 1)]\<rparr>) 5)
        [(''a'', VNum 1)])
     = trace (ObservableObject_onChange (ObservableObject \<lparr>oid = 0, props = [(''a'', VNum 1)]\<rparr>) 5)
       @ [ListenerCall 5 \<lparr>oid = 1, props = [(''a'', VNum 1)]\<rparr> \<lparr>oid = 0, props = [(''a'', VNum 1)]\<rparr>]"
  by (simp add: same_values_def spread_def keys_def entries_def is_array_index_def is_digit_def
      get_prop_def strict_eq_def
      ObservableObject_set_def ObservableObject_onChange_def ObservableObject_def
      new_object_def notify_def Let_def)

text \<open>
  Claim C2, amended. Take a container that has not thrown, whose snapshot \<open>s\<close> was
  allocated before the next free reference, and a \<open>set(p)\<close> such that, for every key
  of the merged snapshot \<open>{...s, ...p}\<close> whose value changes, \<open>subscribers[key]\<close> is
  absent or an array (as it is for every key that is not the name of a member of
  \<open>Object.prototype\<close>). Then \<open>set(p)\<close> throws nothing and installs a new object
  holding the merged snapshot. It calls the per-key subscribers of the keys of the new
  snapshot with \<open>old[k] !== new[k]\<close>, key by key in the order of \<open>Object.keys\<close>, each
  subscriber of such a key once with \<open>(new[k], old[k])\<close> in registration order, and no
  subscriber of any other key. After them it always calls every whole-object listener
  once, in registration order, with (new snapshot, old snapshot), also when the merged
  snapshot has the same values as \<open>s\<close>; in that case no per-key subscriber is called.
\<close>

theorem ObservableObject_set_notifies:
  fixes st :: observable_object and p :: props
  defines "old \<equiv> ObservableObject_get st"
  defines "merged \<equiv> spread (props old) p"
  defines "st' \<equiv> ObservableObject_set st p"
  defines "new \<equiv> ObservableObject_get st'"
  defines "per_key \<equiv>
     concat (map (\<lambda>k. map (\<lambda>s. SubscriberCall k s (get_prop merged k) (get_prop (props old) k))
                         (callbacks (lookup_subscribers (subscribers st) k)))
              (changed_keys merged (props old)))"
  assumes running: "thrown st = None"
    and alloc: "oid (object st) < heap_next st"
    and arrays: "list_all (\<lambda>k. is_array (lookup_subscribers (subscribers st) k))
                   (changed_keys merged (props old))"
  shows "props new = merged \<and> oid new \<noteq> oid old \<and> thrown st' = None
       \<and> trace st' = trace st @ per_key
                      @ map (\<lambda>listener. ListenerCall listener new old) (obj_listeners st)
       \<and> (\<forall>c \<in> set per_key. subscriber_key c \<noteq> None)
       \<and> (\<forall>k. filter (\<lambda>c. subscriber_key c = Some k) per_key
              = (if k \<in> set (keys merged)
                    \<and> \<not> strict_eq (get_prop (props old) k) (get_prop merged k)
                 then map (\<lambda>s. SubscriberCall k s (get_prop merged k) (get_prop (props old) k))
                          (callbacks (lookup_subscribers (subscribers st) k))
                 else []))
       \<and> (same_values merged (props old) \<longrightarrow> per_key = [])"
proof -
  have old: "old = object st" by (simp add: old_def ObservableObject_get_def)
  have loop: "subscriber_calls (subscribers st) merged (props (object st)) (keys merged)
              = (None, per_key)"
    using arrays subscriber_calls_arrays [of "subscribers st" "props (object st)" merged "keys merged"]
    by (simp add: per_key_def changed_keys_def old)
  from running alloc loop
  have st': "st' = st\<lparr>object := \<lparr>oid = heap_next st, props = merged\<rparr>,
                      heap_next := Suc (heap_next st),
                      trace := trace st @ per_key
                        @ map (\<lambda>listener. ListenerCall listener \<lparr>oid = heap_next st, props = merged\<rparr>
                                 (object st)) (obj_listeners st)\<rparr>"
    by (simp add: st'_def ObservableObject_set_def new_object_def notify_def Let_def
        merged_def old)
  then have new: "new = \<lparr>oid = heap_next st, props = merged\<rparr>"
    by (simp add: new_def ObservableObject_get_def)
  from st' running have thr: "thrown st' = None" by simp
  from st' new old have tr: "trace st' = trace st @ per_key
                      @ map (\<lambda>listener. ListenerCall listener new old) (obj_listeners st)"
    by simp
  have dist: "distinct (keys merged)" by (simp add: merged_def distinct_keys_spread)
  have by_key: "filter (\<lambda>c. subscriber_key c = Some k) per_key
              = (if k \<in> set (keys merged)
                    \<and> \<not> strict_eq (get_prop (props old) k) (get_prop merged k)
                 then map (\<lambda>s. SubscriberCall k s (get_prop merged k) (get_prop (props old) k))
                          (callbacks (lookup_subscribers (subscribers st) k))
                 else [])" for k
    unfolding per_key_def changed_keys_def by (rule calls_by_key [OF dist])
  have only: "\<forall>c \<in> set per_key. subscriber_key c \<noteq> None"
    unfolding per_key_def by auto
  have same: "same_values merged (props old) \<longrightarrow> per_key = []"
    by (simp add: per_key_def same_values_changed_keys)
  from alloc have fresh: "oid new \<noteq> oid old" by (simp add: new old)
  have pm: "props new = merged" by (simp add: new)
  from pm fresh thr tr only by_key same show ?thesis by blast
qed


lemmas oo_eval = ObservableObject_subscribe_def ObservableObject_onChange_def
  ObservableObject_def ObservableObject_get_def ObservableObject_set_def
  ObservableObject_push_def ObservableObject_remove_def
  new_object_def notify_def spread_def keys_def entries_def is_array_index_def is_digit_def index_value_def
  digit_value_def
  get_prop_def object_prototype_names_def lookup_subscribers_def assign_subscribers_def
  strict_eq_def changed_keys_def Let_def

theorem ObservableObject_set_notifies_witness:
  "thrown (ObservableObject_subscribe (ObservableObject_subscribe
         (ObservableObject_onChange (ObservableObject \<lparr>oid = 0, props = [(''a'', VNum 1)]\<rparr>) 5)
         ''a'' 7) ''1'' 8) = None
   \<and> trace (ObservableObject_set
        (ObservableObject_subscribe (ObservableObject_subscribe
           (ObservableObject_onChange (ObservableObject \<lparr>oid = 0, props = [(''a'', VNum 1)]\<rparr>) 5)
           ''a'' 7) ''1'' 8)
        [(''a'', VNum 2), (''1'', VNum 3)])
     = [ListenerCall 5 \<lparr>oid = 0, props = [(''a'', VNum 1)]\<rparr> \<lparr>oid = 0, props = [(''a'', VNum 1)]\<rparr>,
        SubscriberCall ''a'' 7 (VNum 1) (VNum 1),
        SubscriberCall ''1'' 8 VUndefined VUndefined,
        SubscriberCall ''1'' 8 (VNum 3) VUndefined,
        SubscriberCall ''a'' 7 (VNum 2) (VNum 1),
        ListenerCall 5 \<lparr>oid = 1, props = [(''a'', VNum 2), (''1'', VNum 3)]\<rparr>
                       \<lparr>oid = 0, props = [(''a'', VNum 1)]\<rparr>]"
proof -
  let ?st = "ObservableObject_subscribe (ObservableObject_subscribe
         (ObservableObject_onChange (ObservableObject \<lparr>oid = 0, props = [(''a'', VNum 1)]\<rparr>) 5)
         ''a'' 7) ''1'' 8"
  let ?p = "[(''a'', VNum 2), (''1'', VNum 3)]"
  have st: "?st = \<lparr>object = \<lparr>oid = 0, props = [(''a'', VNum 1)]\<rparr>, obj_listeners = [5],
                   subscribers = [(''a'', Subscribers [7]), (''1'', Subscribers [8])],
                   heap_next = 1,
                   trace = [ListenerCall 5 \<lparr>oid = 0, props = [(''a'', VNum 1)]\<rparr>
                                           \<lparr>oid = 0, props = [(''a'', VNum 1)]\<rparr>,
                            SubscriberCall ''a'' 7 (VNum 1) (VNum 1),
                            SubscriberCall ''1'' 8 VUndefined VUndefined],
                   thrown = None\<rparr>"
    by (simp add: oo_eval)
  have running: "thrown ?st = None" by (simp add: st)
  have alloc: "oid (object ?st) < heap_next ?st" by (simp add: st)
  have merged: "spread (props (ObservableObject_get ?st)) ?p = [(''a'', VNum 2), (''1'', VNum 3)]"
    by (simp add: st ObservableObject_get_def spread_def entries_def is_array_index_def
        is_digit_def index_value_def digit_value_def)
  have ck: "changed_keys [(''a'', VNum 2), (''1'', VNum 3)] (props (ObservableObject_get ?st))
            = [''1'', ''a'']"
    by (simp add: st ObservableObject_get_def changed_keys_def keys_def entries_def is_array_index_def
        is_digit_def index_value_def digit_value_def get_prop_def object_prototype_names_def
        strict_eq_def)
  have arrays: "list_all (\<lambda>k. is_array (lookup_subscribers (subscribers ?st) k))
                  (changed_keys (spread (props (ObservableObject_get ?st)) ?p)
                     (props (ObservableObject_get ?st)))"
    unfolding merged ck by (simp add: st lookup_subscribers_def)
  from ObservableObject_set_notifies [OF running alloc arrays]
  have "trace (ObservableObject_set ?st ?p)
      = trace ?st
        @ concat (map (\<lambda>k. map (\<lambda>s. SubscriberCall k s
                                   (get_prop (spread (props (ObservableObject_get ?st)) ?p) k)
                                   (get_prop (props (ObservableObject_get ?st)) k))
                            (callbacks (lookup_subscribers (subscribers ?st) k)))
                   (changed_keys (spread (props (ObservableObject_get ?st)) ?p)
                      (props (ObservableObject_get ?st))))
        @ map (\<lambda>listener. ListenerCall listener
                  (ObservableObject_get (ObservableObject_set ?st ?p))
                  (ObservableObject_get ?st)) (obj_listeners ?st)"
    and "props (ObservableObject_get (ObservableObject_set ?st ?p))
         = spread (props (ObservableObject_get ?st)) ?p"
    by blast+
  then have "trace (ObservableObject_set ?st ?p)
      = trace ?st
        @ [SubscriberCall ''1'' 8 (VNum 3) VUndefined, SubscriberCall ''a'' 7 (VNum 2) (VNum 1)]
        @ map (\<lambda>listener. ListenerCall listener
                  (ObservableObject_get (ObservableObject_set ?st ?p))
                  (ObservableObject_get ?st)) (obj_listeners ?st)"
    unfolding merged ck
    by (simp add: st ObservableObject_get_def lookup_subscribers_def get_prop_def
        object_prototype_names_def)
  moreover have "ObservableObject_get (ObservableObject_set ?st ?p)
                 = \<lparr>oid = 1, props = [(''a'', VNum 2), (''1'', VNum 3)]\<rparr>"
    unfolding st by (simp add: oo_eval)
  ultimately show ?thesis using running by (simp add: st ObservableObject_get_def)
qed

text \<open>
  A key that names a member of \<open>Object.prototype\<close> and whose value changes ends
  \<open>set\<close> with a TypeError in the key loop, before the whole-object listeners.
\<close>

lemma ObservableObject_set_prototype_key_throws:
  "thrown (ObservableObject_set
            (ObservableObject_onChange (ObservableObject \<lparr>oid = 0, props = []\<rparr>) 5)
            [(''constructor'', VNum 1)]) = Some TypeError
   \<and> trace (ObservableObject_set
            (ObservableObject_onChange (ObservableObject \<lparr>oid = 0, props = []\<rparr>) 5)
            [(''constructor'', VNum 1)])
     = [ListenerCall 5 \<lparr>oid = 0, props = []\<rparr> \<lparr>oid = 0, props = []\<rparr>]
   \<and> ObservableObject_get (ObservableObject_set
            (ObservableObject_onChange (ObservableObject \<lparr>oid = 0, props = []\<rparr>) 5)
            [(''constructor'', VNum 1)])
     = \<lparr>oid = 1, props = [(''constructor'', VNum 1)]\<rparr>"
  by (simp add: oo_eval)

text \<open>
  The hypothesis on the references holds of a new container and is kept by every
  operation.
\<close>

lemma heap_next_notify:
  "oid (object st) < heap_next st \<Longrightarrow> oid newObject < heap_next st
   \<Longrightarrow> oid (object (notify st newObject)) < heap_next (notify st newObject)"
  by (simp add: notify_def Let_def split: prod.splits option.splits)

lemma heap_next_ObservableObject:
  "oid (object (ObservableObject obj)) < heap_next (ObservableObject obj)"
  by (simp add: ObservableObject_def)

lemma heap_next_set:
  "oid (object st) < heap_next st
   \<Longrightarrow> oid (object (ObservableObject_set st p)) < heap_next (ObservableObject_set st p)"
  by (simp add: ObservableObject_set_def new_object_def heap_next_notify)

lemma heap_next_push:
  "oid (object st) < heap_next st
   \<Longrightarrow> oid (object (ObservableObject_push st k v)) < heap_next (ObservableObject_push st k v)"
  by (simp add: ObservableObject_push_def new_object_def heap_next_notify)

lemma heap_next_remove:
  "oid (object st) < heap_next st
   \<Longrightarrow> oid (object (ObservableObject_remove st k)) < heap_next (ObservableObject_remove st k)"
  by (simp add: ObservableObject_remove_def new_object_def heap_next_notify)

lemma heap_next_register:
  "oid (object st) < heap_next st
   \<Longrightarrow> oid (object (ObservableObject_onChange st cb)) < heap_next (ObservableObject_onChange st cb)
     \<and> oid (object (ObservableObject_subscribe st k cb))
         < heap_next (ObservableObject_subscribe st k cb)"
  by (simp add: ObservableObject_onChange_def ObservableObject_subscribe_def Let_def
      split: sub_value.splits)

text \<open>
  Claim C7. The scenario of the test suite, from \<open>ObservableObject({})\<close> with one
  subscriber \<open>cb\<close> for the key \<open>value\<close>: after \<open>set({value: 1})\<close>,
  \<open>push('text', 'Puerro')\<close> and \<open>remove('value')\<close> the snapshot is
  \<open>{value: undefined, text: 'Puerro'}\<close>, and the subscriber has been called three
  times, last with \<open>(undefined, 1)\<close>. No call throws.
\<close>

theorem ObservableObject_scenario:
  fixes cb :: callback and i :: nat
  defines "st0 \<equiv> ObservableObject_subscribe (ObservableObject \<lparr>oid = i, props = []\<rparr>) ''value'' cb"
  defines "st3 \<equiv> ObservableObject_remove
                   (ObservableObject_push
                      (ObservableObject_set st0 [(''value'', VNum 1)])
                      ''text'' (VStr ''Puerro''))
                   ''value''"
  shows "props (ObservableObject_get st3) = [(''value'', VUndefined), (''text'', VStr ''Puerro'')]
       \<and> trace st3 = [SubscriberCall ''value'' cb VUndefined VUndefined,
                      SubscriberCall ''value'' cb (VNum 1) VUndefined,
                      SubscriberCall ''value'' cb VUndefined (VNum 1)]
       \<and> last (trace st3) = SubscriberCall ''value'' cb VUndefined (VNum 1)
       \<and> keys (props (ObservableObject_get st3)) = [''value'', ''text'']
       \<and> thrown st3 = None"
  by (simp add: st3_def st0_def oo_eval)


lemma lookup_subscribers_absent:
  "map_of subs k = None \<Longrightarrow> k \<notin> set object_prototype_names
   \<Longrightarrow> lookup_subscribers subs k = Subscribers []"
  by (simp add: lookup_subscribers_def)





section \<open>Properties of the node constructor and of \<open>changed\<close>\<close>

lemma concat_arg_flatten: "concat (map concat_arg nodes) = spec_flatten_one_level nodes"
  by (induction nodes rule: spec_flatten_one_level.induct) simp_all

lemma length_flatten:
  "length (spec_flatten_one_level nodes) = sum_list (map arg_entries nodes)"
  by (induction nodes rule: spec_flatten_one_level.induct) simp_all

lemma nullish_kept:
  "n \<in> set nodes \<Longrightarrow> vnullish n \<Longrightarrow> n \<in> set (spec_flatten_one_level nodes)"
  by (induction nodes rule: spec_flatten_one_level.induct) auto

text \<open>
  Claim C3, as stated, fails: \<open>vNode\<close> removes nothing. \<open>vNode('div', null, null, 'a')\<close>
  has the children \<open>[null, 'a']\<close>.
\<close>

theorem vNode_keeps_null_counterexample:
  "prop_children (vNode ''div'' None [NNull, NStr ''a'']) = Inr (Some [NNull, NStr ''a''])
   \<and> list_ex vnullish [NNull, NStr ''a'']"
  by (simp add: vNode_def)

text \<open>
  Claim C3, amended. \<open>vNode\<close> produces a node with the given tag, with the given
  attribute mapping (the empty one for \<open>null\<close> or \<open>undefined\<close>), and with the
  one-level flattening of the passed children as its children. Nothing is pruned: an
  argument that is an array contributes its entries, any other argument one entry, and
  every argument that is \<open>null\<close> or \<open>undefined\<close> is among the children.
\<close>

theorem vNode_children_flattened:
  "prop_tagName (vNode t a nodes) = Inr (Some t)
   \<and> prop_attributes (vNode t a nodes) = Inr (Some (case a of None \<Rightarrow> [] | Some m \<Rightarrow> m))
   \<and> prop_children (vNode t a nodes) = Inr (Some (spec_flatten_one_level nodes))
   \<and> length (spec_flatten_one_level nodes) = sum_list (map arg_entries nodes)
   \<and> (\<forall>n \<in> set nodes. vnullish n \<longrightarrow> n \<in> set (spec_flatten_one_level nodes))"
  by (simp add: vNode_def concat_arg_flatten length_flatten nullish_kept)

theorem vNode_children_flattened_witness:
  "NNull \<in> set [NArray [NStr ''a'', NUndefined], NNull, NNum 1]
   \<and> vnullish NNull
   \<and> prop_children (vNode ''ul'' None [NArray [NStr ''a'', NUndefined], NNull, NNum 1])
     = Inr (Some [NStr ''a'', NUndefined, NNull, NNum 1])
   \<and> NNull \<in> set (spec_flatten_one_level [NArray [NStr ''a'', NUndefined], NNull, NNum 1])"
  using vNode_children_flattened
          [where t = "''ul''" and a = None and nodes = "[NArray [NStr ''a'', NUndefined], NNull, NNum 1]"]
  by simp

lemma nodeChanged_VNode: "nodeChanged (VNode t1 a1 c1) (VNode t2 a2 c2) = Inr False"
  by (simp add: nodeChanged_def strict_eq_def)

lemma attributesChanged_same:
  "attributesChanged (VNode t1 a c1) (VNode t2 a c2) = Inr False"
  by (simp add: attributesChanged_def list_ex_iff)

lemma changed_VNode_same_attributes: "changed (VNode t1 a c1) (VNode t2 a c2) = Inr False"
  by (simp add: changed_def nodeChanged_VNode attributesChanged_same)

text \<open>
  Claim C1 does not hold of the code. \<open>changed\<close> compares the property \<open>type\<close>, which
  no node has, where the nodes carry their tag in \<open>tagName\<close>: two element nodes with
  the same attribute mapping are reported as unchanged whatever their tags are. For
  \<open>vNode('div')\<close> and \<open>vNode('span')\<close> the result is \<open>false\<close>.
\<close>

theorem changed_ignores_tagName:
  "changed (vNode ''div'' None []) (vNode ''span'' None []) = Inr False
   \<and> prop_tagName (vNode ''div'' None []) \<noteq> prop_tagName (vNode ''span'' None [])
   \<and> (\<forall>t1 t2 a c1 c2. changed (VNode t1 a c1) (VNode t2 a c2) = Inr False)"
  by (simp add: vNode_def changed_VNode_same_attributes)

section \<open>Properties of \<open>diff\<close>\<close>

text \<open>
  Claim C6. When the old node is \<open>null\<close> or \<open>undefined\<close>, the parent is an element and
  \<open>newNode\<close> renders to \<open>d\<close>, \<open>diff\<close> throws nothing and makes one mutation,
  \<open>appendChild(d)\<close> on the parent: the children are the earlier ones, untouched,
  followed by \<open>d\<close>, whatever the index is.
\<close>

theorem diff_absent_old_appends:
  assumes "vnullish oldNode" and "render h newNode = Inr d"
  shows "diff h (Some (Element t a l cs)) newNode oldNode index
         = (None, Some (Element t a l (cs @ [d])), [AppendChild [] d])"
  using assms by (simp add: diff.simps)

theorem diff_absent_old_appends_witness:
  "vnullish NUndefined
   \<and> render any_name (vNode ''li'' None [NStr ''b'']) = Inr (Element ''li'' [] [] [TextNode ''b''])
   \<and> diff any_name (Some (Element ''ul'' [] [] [Element ''li'' [] [] [TextNode ''a'']]))
        (vNode ''li'' None [NStr ''b'']) NUndefined 1
     = (None,
        Some (Element ''ul'' [] [] [Element ''li'' [] [] [TextNode ''a''],
                                    Element ''li'' [] [] [TextNode ''b'']]),
        [AppendChild [] (Element ''li'' [] [] [TextNode ''b''])])"
proof -
  have r: "render any_name (vNode ''li'' None [NStr ''b'']) = Inr (Element ''li'' [] [] [TextNode ''b''])"
    by (simp add: vNode_def createDomElement_def any_name_def keys_def entries_def)
  have n: "vnullish NUndefined" by simp
  from diff_absent_old_appends [OF n r] r n show ?thesis by simp
qed

lemma changed_same:
  "\<not> vnullish T \<Longrightarrow> T \<noteq> NNaN \<Longrightarrow> changed T T = Inr False"
  by (cases T)
     (simp_all add: changed_def nodeChanged_def attributesChanged_def strict_eq_def list_ex_iff)

lemma put_child_same: "child_at p i = Some c \<Longrightarrow> put_child p i c = p"
  by (cases p) (auto simp add: child_at_def split: if_splits)

lemma childNodes_addEventListener [simp]: "childNodes (addEventListener el k f) = childNodes el"
  by (cases el) simp_all

lemma childNodes_setAttribute:
  "setAttribute h el k v = Inr el' \<Longrightarrow> childNodes el' = childNodes el"
  by (cases el) (auto split: if_splits)

lemma childNodes_set_attributes:
  "set_attributes h a ks el = Inr el' \<Longrightarrow> childNodes el' = childNodes el"
proof (induction ks arbitrary: el)
  case Nil
  then show ?case by simp
next
  case (Cons k ks)
  then show ?case
    by (auto split: if_splits sum.splits dest: childNodes_setAttribute)
qed

lemma childNodes_createDomElement:
  "createDomElement h t a = Inr el \<Longrightarrow> childNodes el = []"
  by (auto simp add: createDomElement_def split: if_splits dest: childNodes_set_attributes)

lemma render_children_result:
  "render_children h cs el = Inr d
   \<Longrightarrow> \<exists>ds. childNodes d = childNodes el @ ds \<and> list_all2 (\<lambda>c x. render h c = Inr x) cs ds"
proof (induction cs arbitrary: el)
  case Nil
  then show ?case by simp
next
  case (Cons c cs)
  from Cons.prems obtain x el' where
    x: "render h c = Inr x" and el': "appendChild el x = Inr el'"
    and rest: "render_children h cs el' = Inr d"
    by (auto split: sum.splits)
  from el' have kids: "childNodes el' = childNodes el @ [x]" by (cases el) auto
  from Cons.IH [OF rest] kids x show ?case by auto
qed

lemma render_VNode_children:
  "render h (VNode t a cs) = Inr d \<Longrightarrow> list_all2 (\<lambda>c x. render h c = Inr x) cs (childNodes d)"
  by (auto split: sum.splits dest!: render_children_result childNodes_createDomElement)


lemma diff_children_identical:
  assumes IH: "\<And>c parent index d. c \<in> set ns \<Longrightarrow> plain c \<Longrightarrow> render h c = Inr d
                 \<Longrightarrow> child_at parent index = Some d
                 \<Longrightarrow> diff h (Some parent) c c index = (None, Some parent, [])"
    and "list_all plain ns"
    and "child_at parent index = Some el"
    and "ocs = pre @ ns"
    and "i = length pre"
    and "list_all2 (\<lambda>c x. render h c = Inr x) ns (drop i (childNodes el))"
  shows "diff_children h (Some parent) index ns (VNode t a ocs) i = (None, Some parent, [])"
  using assms
proof (induction ns arbitrary: pre i)
  case Nil
  then show ?case by (simp add: diff.simps)
next
  case (Cons n rest)
  from Cons.prems(6) obtain x xs where
    dr: "drop i (childNodes el) = x # xs" and x: "render h n = Inr x"
    and xs: "list_all2 (\<lambda>c x. render h c = Inr x) rest xs"
    by (auto simp add: list_all2_Cons1)
  from dr have i: "i < length (childNodes el)"
    by (metis drop_all linorder_not_less list.distinct(1))
  with dr have at: "child_at el i = Some x"
    by (metis Cons_nth_drop_Suc child_at_def list.inject)
  from dr have dr': "drop (Suc i) (childNodes el) = xs"
    by (metis drop_Suc tl_drop list.sel(3))
  from Cons.prems(2) have pn: "plain n" and prest: "list_all plain rest" by simp_all
  have step: "diff h (Some el) n n i = (None, Some el, [])"
    by (rule Cons.prems(1) [OF _ pn x at]) simp
  have nth: "i < length ocs" "ocs ! i = n"
    using Cons.prems(4,5) by simp_all
  have rec: "diff_children h (Some parent) index rest (VNode t a ocs) (Suc i)
             = (None, Some parent, [])"
  proof (rule Cons.IH [where pre = "pre @ [n]"])
    show "list_all plain rest" by (rule prest)
    show "child_at parent index = Some el" by (rule Cons.prems(3))
    show "ocs = (pre @ [n]) @ rest" using Cons.prems(4) by simp
    show "Suc i = length (pre @ [n])" using Cons.prems(5) by simp
    show "list_all2 (\<lambda>c x. render h c = Inr x) rest (drop (Suc i) (childNodes el))"
      using xs dr' by simp
    show "\<And>c parent index d. c \<in> set rest \<Longrightarrow> plain c \<Longrightarrow> render h c = Inr d
                 \<Longrightarrow> child_at parent index = Some d
                 \<Longrightarrow> diff h (Some parent) c c index = (None, Some parent, [])"
      using Cons.prems(1) by simp
  qed
  from step rec nth Cons.prems(3) show ?case
    by (simp add: diff.simps put_child_same)
qed

text \<open>
  Claim C5, as stated, fails on trees that \<open>vNode\<close> builds. A child that is
  \<open>null\<close> is rendered as an empty text node, and on the next \<open>diff\<close> of the tree
  with itself the test \<open>null == oldNode\<close> appends one more empty text node. A text
  node NaN is unequal to itself, so \<open>changed\<close> is true and the live node is replaced.
\<close>

theorem diff_identical_counterexample:
  "render any_name (vNode ''div'' None [NNull]) = Inr (Element ''div'' [] [] [TextNode []])
   \<and> diff any_name (Some (Element ''main'' [] [] [Element ''div'' [] [] [TextNode []]]))
        (vNode ''div'' None [NNull]) (vNode ''div'' None [NNull]) 0
     = (None,
        Some (Element ''main'' [] [] [Element ''div'' [] [] [TextNode [], TextNode []]]),
        [AppendChild [0] (TextNode [])])
   \<and> render any_name NNaN = Inr (TextNode ''NaN'')
   \<and> diff any_name (Some (Element ''main'' [] [] [TextNode ''NaN''])) NNaN NNaN 0
     = (None, Some (Element ''main'' [] [] [TextNode ''NaN'']), [ReplaceChild [] 0 (TextNode ''NaN'')])"
  by (simp add: vNode_def diff.simps createDomElement_def any_name_def keys_def entries_def child_at_def
      changed_def nodeChanged_def attributesChanged_def strict_eq_def replaceChild_at_def)

text \<open>
  Claim C5, amended. Let \<open>T\<close> be a tree without \<open>null\<close>, \<open>undefined\<close> or NaN at any
  place, and let the child of the live parent at the index be the rendering of \<open>T\<close>.
  Then \<open>diff(parent, T, T, index)\<close> throws nothing, makes no mutation and leaves the
  parent as it is.
\<close>

theorem diff_identical:
  "plain T \<Longrightarrow> render h T = Inr d \<Longrightarrow> child_at parent index = Some d
   \<Longrightarrow> diff h (Some parent) T T index = (None, Some parent, [])"
proof (induction T arbitrary: parent index d)
  case (VNode t a cs)
  have ch: "changed (VNode t a cs) (VNode t a cs) = Inr False"
    by (rule changed_VNode_same_attributes)
  show ?case
  proof (cases "t = []")
    case True
    with ch show ?thesis by (simp add: diff.simps)
  next
    case False
    from VNode.prems(2) have kids: "list_all2 (\<lambda>c x. render h c = Inr x) cs (childNodes d)"
      by (rule render_VNode_children)
    have "diff_children h (Some parent) index cs (VNode t a cs) 0 = (None, Some parent, [])"
    proof (rule diff_children_identical [where pre = "[]" and el = d])
      show "list_all plain cs" using VNode.prems(1) by simp
      show "child_at parent index = Some d" by (rule VNode.prems(3))
      show "list_all2 (\<lambda>c x. render h c = Inr x) cs (drop 0 (childNodes d))" using kids by simp
      show "\<And>c parent index d. c \<in> set cs \<Longrightarrow> plain c \<Longrightarrow> render h c = Inr d
                 \<Longrightarrow> child_at parent index = Some d
                 \<Longrightarrow> diff h (Some parent) c c index = (None, Some parent, [])"
        using VNode.IH by blast
    qed simp_all
    with ch False show ?thesis by (simp add: diff.simps)
  qed
qed (simp_all add: diff.simps changed_same)

theorem diff_identical_witness:
  "plain (vNode ''ul'' None [vNode ''li'' None [NStr ''a''], NNum 3])
   \<and> render any_name (vNode ''ul'' None [vNode ''li'' None [NStr ''a''], NNum 3])
       = Inr (Element ''ul'' [] [] [Element ''li'' [] [] [TextNode ''a''], TextNode ''3''])
   \<and> child_at (Element ''main'' [] []
                 [Element ''ul'' [] [] [Element ''li'' [] [] [TextNode ''a''], TextNode ''3'']]) 0
       = Some (Element ''ul'' [] [] [Element ''li'' [] [] [TextNode ''a''], TextNode ''3''])
   \<and> diff any_name
         (Some (Element ''main'' [] []
                 [Element ''ul'' [] [] [Element ''li'' [] [] [TextNode ''a''], TextNode ''3'']]))
         (vNode ''ul'' None [vNode ''li'' None [NStr ''a''], NNum 3])
         (vNode ''ul'' None [vNode ''li'' None [NStr ''a''], NNum 3]) 0
       = (None,
          Some (Element ''main'' [] []
                 [Element ''ul'' [] [] [Element ''li'' [] [] [TextNode ''a''], TextNode ''3'']]),
          [])"
proof -
  let ?T = "vNode ''ul'' None [vNode ''li'' None [NStr ''a''], NNum 3]"
  let ?d = "Element ''ul'' [] [] [Element ''li'' [] [] [TextNode ''a''], TextNode ''3'']"
  have p: "plain ?T" by (simp add: vNode_def)
  have r: "render any_name ?T = Inr ?d"
    by (simp add: vNode_def createDomElement_def any_name_def keys_def entries_def digits.simps)
  have c: "child_at (Element ''main'' [] [] [?d]) 0 = Some ?d" by (simp add: child_at_def)
  from diff_identical [OF p r c] p r c show ?thesis by simp
qed

lemma put_child_twice: "put_child (put_child p i c) i c' = put_child p i c'"
  by (cases p) simp_all

lemma under_not_top: "under i q \<noteq> RemoveChild [] j"
  by (cases q) simp_all

lemma under_RemoveChild: "under i q = RemoveChild [k] j \<longleftrightarrow> k = i \<and> q = RemoveChild [] j"
  by (cases q) auto

lemma diff_children_frame:
  "diff_children h (Some p) index ns old i = (e, r, ops)
   \<Longrightarrow> (r = Some p \<or> (\<exists>c. r = Some (put_child p index c)))
       \<and> (\<forall>op \<in> set ops. \<exists>q. op = under index q)"
proof (induction ns arbitrary: p i e r ops)
  case Nil
  then show ?case by (simp add: diff.simps)
next
  case (Cons n rest)
  show ?case
  proof (cases "prop_children old")
    case (Inl err)
    with Cons.prems show ?thesis by (simp add: diff.simps)
  next
    case (Inr v)
    show ?thesis
    proof (cases v)
      case None
      with Inr Cons.prems show ?thesis by (simp add: diff.simps)
    next
      case (Some ocs)
      obtain e1 sub ops1 where
        step: "diff h (child_at p index) n (if i < length ocs then ocs ! i else NUndefined) i
               = (e1, sub, ops1)"
        by (cases "diff h (child_at p index) n (if i < length ocs then ocs ! i else NUndefined) i")
      define p' where "p' = (case sub of None \<Rightarrow> p | Some c \<Rightarrow> put_child p index c)"
      have p': "p' = p \<or> (\<exists>c. p' = put_child p index c)"
        by (auto simp add: p'_def split: option.splits)
      show ?thesis
      proof (cases e1)
        case (Some err)
        with Cons.prems Inr \<open>v = Some ocs\<close> step
        have "r = Some p'" "ops = map (under index) ops1"
          by (simp_all add: diff.simps p'_def)
        with p' show ?thesis by auto
      next
        case None
        obtain e2 r2 ops2 where
          rec: "diff_children h (Some p') index rest old (Suc i) = (e2, r2, ops2)"
          by (cases "diff_children h (Some p') index rest old (Suc i)")
        from Cons.prems Inr \<open>v = Some ocs\<close> step None rec
        have res: "r = r2" "ops = map (under index) ops1 @ ops2"
          by (simp_all add: diff.simps p'_def)
        from Cons.IH [OF rec] have
          "r2 = Some p' \<or> (\<exists>c. r2 = Some (put_child p' index c))"
          and "\<forall>op \<in> set ops2. \<exists>q. op = under index q" by simp_all
        with p' res show ?thesis by (auto simp add: put_child_twice)
      qed
    qed
  qed
qed


lemma childNodes_put_child:
  "childNodes (put_child el i c) = (childNodes el)[i := c]"
  by (cases el) simp_all

lemma appendChild_childNodes:
  "appendChild el d = Inr el' \<Longrightarrow> childNodes el' = childNodes el @ [d]"
  by (cases el) auto

lemma replaceChild_at_childNodes:
  "replaceChild_at el d i = Inr el' \<Longrightarrow> childNodes el' = (childNodes el)[i := d]"
  by (cases el) (auto simp add: replaceChild_at_def split: if_splits)

text \<open>One iteration of the loop, seen from the element whose children are diffed.\<close>

lemma diff_step_frame:
  assumes "diff h (Some el) n oc i = (e, r, ops)"
  shows "\<exists>el'. r = Some el'
         \<and> (\<forall>j. RemoveChild [] j \<in> set ops \<longrightarrow> j = i)
         \<and> (\<not> vnullish n \<longrightarrow>
               (\<forall>j. RemoveChild [] j \<notin> set ops)
             \<and> length (childNodes el) \<le> length (childNodes el')
             \<and> (\<forall>j < length (childNodes el). j \<noteq> i \<longrightarrow> childNodes el' ! j = childNodes el ! j))"
proof (cases "vnullish oc")
  case True
  with assms show ?thesis
    by (auto simp add: diff.simps nth_append split: sum.splits dest!: appendChild_childNodes)
next
  case oc: False
  show ?thesis
  proof (cases "vnullish n")
    case True
    with oc assms show ?thesis
      by (auto simp add: diff.simps split: sum.splits)
  next
    case n: False
    show ?thesis
    proof (cases "changed oc n")
      case (Inl err)
      with oc n assms show ?thesis by (auto simp add: diff.simps)
    next
      case (Inr c)
      show ?thesis
      proof (cases c)
        case True
        with Inr oc n assms show ?thesis
          by (auto simp add: diff.simps split: sum.splits dest!: replaceChild_at_childNodes)
      next
        case False
        show ?thesis
        proof (cases "\<exists>t a cs. n = VNode t a cs \<and> t \<noteq> []")
          case True
          then obtain t a cs where nv: "n = VNode t a cs" "t \<noteq> []" by blast
          with False Inr oc n assms
          have "diff_children h (Some el) i cs oc 0 = (e, r, ops)" by (simp add: diff.simps)
          from diff_children_frame [OF this]
          have r: "r = Some el \<or> (\<exists>c. r = Some (put_child el i c))"
            and ops: "\<forall>op \<in> set ops. \<exists>q. op = under i q" by simp_all
          from ops have "\<forall>j. RemoveChild [] j \<notin> set ops"
            by (metis under_not_top)
          with r show ?thesis by (auto simp add: childNodes_put_child)
        next
          case nv: False
          with False Inr oc n assms have "r = Some el" "ops = []"
            by (cases n; simp add: diff.simps split: if_splits)+
          then show ?thesis by simp
        qed
      qed
    qed
  qed
qed


lemma child_at_put_child:
  "child_at p index = Some el \<Longrightarrow> child_at (put_child p index c) index = Some c"
  by (cases p) (auto simp add: child_at_def split: if_splits)

lemma child_at_put_child_other:
  "k \<noteq> index \<Longrightarrow> child_at (put_child p index c) k = child_at p k"
  by (cases p) (auto simp add: child_at_def)

lemma RemoveChild_in_map_under:
  "RemoveChild [index] j \<in> set (map (under index) ops) \<longleftrightarrow> RemoveChild [] j \<in> set ops"
  by (induction ops) (auto simp add: under_RemoveChild eq_commute [of "RemoveChild [index] j"])

lemma RemoveChild_in_image_under:
  "RemoveChild [index] j \<in> under index ` set ops \<longleftrightarrow> RemoveChild [] j \<in> set ops"
  using RemoveChild_in_map_under [of index j ops] by simp

text \<open>The loop over the new children from index \<open>i\<close> on, seen from the element.\<close>

lemma diff_children_trailing:
  assumes "diff_children h (Some p) index ns old i = (e, r, ops)"
    and "child_at p index = Some el"
  shows "\<exists>p' el'. r = Some p' \<and> child_at p' index = Some el'
         \<and> (\<forall>j. RemoveChild [index] j \<in> set ops \<longrightarrow> i \<le> j \<and> j < i + length ns)
         \<and> (list_all (\<lambda>n. \<not> vnullish n) ns \<longrightarrow>
               (\<forall>j. RemoveChild [index] j \<notin> set ops)
             \<and> length (childNodes el) \<le> length (childNodes el')
             \<and> (\<forall>j < length (childNodes el). j < i \<or> i + length ns \<le> j
                    \<longrightarrow> childNodes el' ! j = childNodes el ! j))"
  using assms
proof (induction ns arbitrary: p el i e r ops)
  case Nil
  then show ?case by (auto simp add: diff.simps)
next
  case (Cons n rest)
  note at = Cons.prems(2)
  show ?case
  proof (cases "prop_children old")
    case (Inl err)
    with Cons.prems show ?thesis by (auto simp add: diff.simps)
  next
    case (Inr v)
    show ?thesis
    proof (cases v)
      case None
      with Inr Cons.prems show ?thesis by (auto simp add: diff.simps)
    next
      case (Some ocs)
      define oc where "oc = (if i < length ocs then ocs ! i else NUndefined)"
      obtain e1 sub ops1 where step: "diff h (Some el) n oc i = (e1, sub, ops1)"
        by (cases "diff h (Some el) n oc i")
      from diff_step_frame [OF step] obtain el1 where
        sub: "sub = Some el1"
        and rm1: "\<forall>j. RemoveChild [] j \<in> set ops1 \<longrightarrow> j = i"
        and fr1: "\<not> vnullish n \<longrightarrow>
               (\<forall>j. RemoveChild [] j \<notin> set ops1)
             \<and> length (childNodes el) \<le> length (childNodes el1)
             \<and> (\<forall>j < length (childNodes el). j \<noteq> i \<longrightarrow> childNodes el1 ! j = childNodes el ! j)"
        by blast
      define p1 where "p1 = put_child p index el1"
      have at1: "child_at p1 index = Some el1"
        unfolding p1_def using at by (rule child_at_put_child)
      show ?thesis
      proof (cases e1)
        case (Some err)
        with Cons.prems(1) Inr \<open>v = Some ocs\<close> step sub at
        have res: "r = Some p1" "ops = map (under index) ops1"
          by (simp_all add: diff.simps p1_def oc_def)
        have "\<forall>j. RemoveChild [index] j \<in> set ops \<longrightarrow> i \<le> j \<and> j < i + length (n # rest)"
          using rm1 by (simp add: res RemoveChild_in_image_under)
        moreover have "list_all (\<lambda>n. \<not> vnullish n) (n # rest) \<longrightarrow>
               (\<forall>j. RemoveChild [index] j \<notin> set ops)
             \<and> length (childNodes el) \<le> length (childNodes el1)
             \<and> (\<forall>j < length (childNodes el). j < i \<or> i + length (n # rest) \<le> j
                    \<longrightarrow> childNodes el1 ! j = childNodes el ! j)"
          using fr1 by (simp add: res RemoveChild_in_image_under)
        ultimately show ?thesis using res at1 by blast
      next
        case None
        obtain e2 r2 ops2 where
          rec: "diff_children h (Some p1) index rest old (Suc i) = (e2, r2, ops2)"
          by (cases "diff_children h (Some p1) index rest old (Suc i)")
        from Cons.prems(1) Inr \<open>v = Some ocs\<close> step sub at None rec
        have res: "r = r2" "ops = map (under index) ops1 @ ops2"
          by (simp_all add: diff.simps p1_def oc_def)
        from Cons.IH [OF rec at1] obtain p2 el2 where
          r2: "r2 = Some p2" and at2: "child_at p2 index = Some el2"
          and rm2: "\<forall>j. RemoveChild [index] j \<in> set ops2 \<longrightarrow> Suc i \<le> j \<and> j < Suc i + length rest"
          and fr2: "list_all (\<lambda>n. \<not> vnullish n) rest \<longrightarrow>
               (\<forall>j. RemoveChild [index] j \<notin> set ops2)
             \<and> length (childNodes el1) \<le> length (childNodes el2)
             \<and> (\<forall>j < length (childNodes el1). j < Suc i \<or> Suc i + length rest \<le> j
                    \<longrightarrow> childNodes el2 ! j = childNodes el1 ! j)"
          by blast
        have "\<forall>j. RemoveChild [index] j \<in> set ops \<longrightarrow> i \<le> j \<and> j < i + length (n # rest)"
          using rm1 rm2 by (auto simp add: res RemoveChild_in_image_under)
        moreover have "list_all (\<lambda>n. \<not> vnullish n) (n # rest) \<longrightarrow>
               (\<forall>j. RemoveChild [index] j \<notin> set ops)
             \<and> length (childNodes el) \<le> length (childNodes el2)
             \<and> (\<forall>j < length (childNodes el). j < i \<or> i + length (n # rest) \<le> j
                    \<longrightarrow> childNodes el2 ! j = childNodes el ! j)"
        proof
          assume "list_all (\<lambda>n. \<not> vnullish n) (n # rest)"
          then have n: "\<not> vnullish n" and rest: "list_all (\<lambda>n. \<not> vnullish n) rest" by simp_all
          from fr1 n have a1: "\<forall>j. RemoveChild [] j \<notin> set ops1"
            and l1: "length (childNodes el) \<le> length (childNodes el1)"
            and s1: "\<forall>j < length (childNodes el). j \<noteq> i \<longrightarrow> childNodes el1 ! j = childNodes el ! j"
            by simp_all
          from fr2 rest have a2: "\<forall>j. RemoveChild [index] j \<notin> set ops2"
            and l2: "length (childNodes el1) \<le> length (childNodes el2)"
            and s2: "\<forall>j < length (childNodes el1). j < Suc i \<or> Suc i + length rest \<le> j
                    \<longrightarrow> childNodes el2 ! j = childNodes el1 ! j"
            by simp_all
          have "\<forall>j. RemoveChild [index] j \<notin> set ops"
            using a1 a2 by (simp add: res RemoveChild_in_image_under)
          moreover have "length (childNodes el) \<le> length (childNodes el2)"
            using l1 l2 by simp
          moreover have "\<forall>j < length (childNodes el). j < i \<or> i + length (n # rest) \<le> j
                    \<longrightarrow> childNodes el2 ! j = childNodes el ! j"
          proof (intro allI impI)
            fix j assume j: "j < length (childNodes el)" and out: "j < i \<or> i + length (n # rest) \<le> j"
            from out have "j \<noteq> i" by auto
            with s1 j have "childNodes el1 ! j = childNodes el ! j" by simp
            moreover from j l1 out s2 have "childNodes el2 ! j = childNodes el1 ! j" by auto
            ultimately show "childNodes el2 ! j = childNodes el ! j" by simp
          qed
          ultimately show "(\<forall>j. RemoveChild [index] j \<notin> set ops)
             \<and> length (childNodes el) \<le> length (childNodes el2)
             \<and> (\<forall>j < length (childNodes el). j < i \<or> i + length (n # rest) \<le> j
                    \<longrightarrow> childNodes el2 ! j = childNodes el ! j)" by blast
        qed
        ultimately show ?thesis using res r2 at2 by blast
      qed
    qed
  qed
qed


text \<open>
  Claim C9, as stated, fails when the new children list has an entry that is \<open>null\<close>
  or \<open>undefined\<close>: the live child at that index is removed, the later live children
  move down by one, and the following iterations act on the moved children. With the
  old children \<open>[li a, li b, li c]\<close> and the new children \<open>[null, null]\<close>, which is
  shorter, the two removals happen at the indices 0 and 1, and the second one removes
  the live node of \<open>li c\<close>, the trailing child: only \<open>li b\<close> is left.
\<close>

theorem diff_shorter_children_counterexample:
  "changed (vNode ''ul'' None [vNode ''li'' None [NStr ''a''], vNode ''li'' None [NStr ''b''],
                                vNode ''li'' None [NStr ''c'']])
           (vNode ''ul'' None [NNull, NNull]) = Inr False
   \<and> render any_name (vNode ''ul'' None [vNode ''li'' None [NStr ''a''], vNode ''li'' None [NStr ''b''],
                                         vNode ''li'' None [NStr ''c'']])
     = Inr (Element ''ul'' [] [] [Element ''li'' [] [] [TextNode ''a''],
                                  Element ''li'' [] [] [TextNode ''b''],
                                  Element ''li'' [] [] [TextNode ''c'']])
   \<and> diff any_name
        (Some (Element ''main'' [] []
           [Element ''ul'' [] [] [Element ''li'' [] [] [TextNode ''a''],
                                  Element ''li'' [] [] [TextNode ''b''],
                                  Element ''li'' [] [] [TextNode ''c'']]]))
        (vNode ''ul'' None [NNull, NNull])
        (vNode ''ul'' None [vNode ''li'' None [NStr ''a''], vNode ''li'' None [NStr ''b''],
                            vNode ''li'' None [NStr ''c'']])
        0
     = (None,
        Some (Element ''main'' [] [] [Element ''ul'' [] [] [Element ''li'' [] [] [TextNode ''b'']]]),
        [RemoveChild [0] 0, RemoveChild [0] 1])"
  by (simp add: vNode_def diff.simps createDomElement_def any_name_def keys_def entries_def child_at_def
      changed_def nodeChanged_def attributesChanged_def strict_eq_def removeChild_at_def
      splice1_def)

text \<open>
  Claim C9, amended. Let the new node be an element node with children \<open>ns\<close>, let the
  old node be present with \<open>changed(oldNode, newNode)\<close> false, and let \<open>el\<close> be the
  live child of the parent at the index. Whatever \<open>diff\<close> returns or throws, the parent
  is still there with a child \<open>el'\<close> at the index, the parent's other children are as
  before, and every \<open>removeChild\<close> on that child is at an index below the length of
  \<open>ns\<close>. When no entry of \<open>ns\<close> is \<open>null\<close> or \<open>undefined\<close>, no \<open>removeChild\<close> is
  made on that child at all, it has at least as many children as before, and its
  children at the indices from the length of \<open>ns\<close> on are the same as before.
\<close>

theorem diff_shorter_children_keeps_trailing:
  assumes unchanged: "changed oldNode (VNode t a ns) = Inr False"
    and old: "\<not> vnullish oldNode"
    and live: "child_at parent index = Some el"
    and result: "diff h (Some parent) (VNode t a ns) oldNode index = (e, r, ops)"
  shows "\<exists>parent' el'. r = Some parent' \<and> child_at parent' index = Some el'
         \<and> (\<forall>k. k \<noteq> index \<longrightarrow> child_at parent' k = child_at parent k)
         \<and> (\<forall>j. RemoveChild [index] j \<in> set ops \<longrightarrow> j < length ns)
         \<and> (list_all (\<lambda>n. \<not> vnullish n) ns \<longrightarrow>
               (\<forall>j. RemoveChild [index] j \<notin> set ops)
             \<and> length (childNodes el) \<le> length (childNodes el')
             \<and> (\<forall>j. length ns \<le> j \<and> j < length (childNodes el)
                    \<longrightarrow> childNodes el' ! j = childNodes el ! j))"
proof (cases "t = []")
  case True
  with unchanged old result have "r = Some parent" "ops = []"
    by (simp_all add: diff.simps)
  with live show ?thesis by simp
next
  case False
  with unchanged old result
  have loop: "diff_children h (Some parent) index ns oldNode 0 = (e, r, ops)"
    by (simp add: diff.simps)
  from diff_children_frame [OF loop]
  have "r = Some parent \<or> (\<exists>c. r = Some (put_child parent index c))" by simp
  then have others: "\<forall>p'. r = Some p' \<longrightarrow> (\<forall>k. k \<noteq> index \<longrightarrow> child_at p' k = child_at parent k)"
    by (auto simp add: child_at_put_child_other)
  from diff_children_trailing [OF loop live] obtain parent' el' where
    "r = Some parent'" "child_at parent' index = Some el'"
    "\<forall>j. RemoveChild [index] j \<in> set ops \<longrightarrow> 0 \<le> j \<and> j < 0 + length ns"
    "list_all (\<lambda>n. \<not> vnullish n) ns \<longrightarrow>
               (\<forall>j. RemoveChild [index] j \<notin> set ops)
             \<and> length (childNodes el) \<le> length (childNodes el')
             \<and> (\<forall>j < length (childNodes el). j < 0 \<or> 0 + length ns \<le> j
                    \<longrightarrow> childNodes el' ! j = childNodes el ! j)"
    by blast
  with others show ?thesis by auto
qed

theorem diff_shorter_children_keeps_trailing_witness:
  "changed (VNode ''ul'' [] [VNode ''li'' [] [NStr ''a''], VNode ''li'' [] [NStr ''b''],
                             VNode ''li'' [] [NStr ''c'']])
           (VNode ''ul'' [] [VNode ''li'' [] [NStr ''a''], VNode ''li'' [] [NStr ''x'']]) = Inr False
   \<and> \<not> vnullish (VNode ''ul'' [] [VNode ''li'' [] [NStr ''a''], VNode ''li'' [] [NStr ''b''],
                                   VNode ''li'' [] [NStr ''c'']])
   \<and> list_all (\<lambda>n. \<not> vnullish n) [VNode ''li'' [] [NStr ''a''], VNode ''li'' [] [NStr ''x'']]
   \<and> diff any_name
        (Some (Element ''main'' [] []
           [Element ''ul'' [] [] [Element ''li'' [] [] [TextNode ''a''],
                                  Element ''li'' [] [] [TextNode ''b''],
                                  Element ''li'' [] [] [TextNode ''c'']]]))
        (VNode ''ul'' [] [VNode ''li'' [] [NStr ''a''], VNode ''li'' [] [NStr ''x'']])
        (VNode ''ul'' [] [VNode ''li'' [] [NStr ''a''], VNode ''li'' [] [NStr ''b''],
                          VNode ''li'' [] [NStr ''c'']])
        0
     = (None,
        Some (Element ''main'' [] []
           [Element ''ul'' [] [] [Element ''li'' [] [] [TextNode ''a''],
                                  Element ''li'' [] [] [TextNode ''x''],
                                  Element ''li'' [] [] [TextNode ''c'']]]),
        [ReplaceChild [0, 1] 0 (TextNode ''x'')])
   \<and> (\<forall>j. RemoveChild [0] j \<notin> set [ReplaceChild [0, 1] 0 (TextNode ''x'')])"
proof -
  let ?old = "VNode ''ul'' [] [VNode ''li'' [] [NStr ''a''], VNode ''li'' [] [NStr ''b''],
                               VNode ''li'' [] [NStr ''c'']]"
  let ?ns = "[VNode ''li'' [] [NStr ''a''], VNode ''li'' [] [NStr ''x'']]"
  let ?el = "Element ''ul'' [] [] [Element ''li'' [] [] [TextNode ''a''],
                                   Element ''li'' [] [] [TextNode ''b''],
                                   Element ''li'' [] [] [TextNode ''c'']]"
  let ?parent = "Element ''main'' [] [] [?el]"
  let ?parent' = "Element ''main'' [] []
           [Element ''ul'' [] [] [Element ''li'' [] [] [TextNode ''a''],
                                  Element ''li'' [] [] [TextNode ''x''],
                                  Element ''li'' [] [] [TextNode ''c'']]]"
  let ?ops = "[ReplaceChild [0, 1] 0 (TextNode ''x'')]"
  have h1: "changed ?old (VNode ''ul'' [] ?ns) = Inr False"
    by (rule changed_VNode_same_attributes)
  have h2: "\<not> vnullish ?old" by simp
  have h3: "child_at ?parent 0 = Some ?el" by (simp add: child_at_def)
  have h4: "diff any_name (Some ?parent) (VNode ''ul'' [] ?ns) ?old 0 = (None, Some ?parent', ?ops)"
    by (simp add: diff.simps createDomElement_def any_name_def keys_def entries_def child_at_def
        changed_def nodeChanged_def attributesChanged_def strict_eq_def replaceChild_at_def)
  have h5: "list_all (\<lambda>n. \<not> vnullish n) ?ns" by simp
  from diff_shorter_children_keeps_trailing [OF h1 h2 h3 h4] h5
  have "\<forall>j. RemoveChild [0] j \<notin> set ?ops" by blast
  with h1 h2 h4 h5 show ?thesis by blast
qed

end
